theory Spec2Isabelle
  imports Complex_Main
begin

section \<open>Tensors and errors\<close>

text \<open>
  The embedding follows \<^verbatim>\<open>src/tailornet/models/tailor_networks.py\<close>.
  A torch tensor of rank 2, 3 or 4 is the nested list of its rows, its scalars are
  real numbers (the exact arithmetic that the 32-bit floats of the source round), and a
  batch is the list of its samples. An exception of the source is a value of \<open>error\<close>
  on the left of a sum; the first exception raised is the one returned. A nested list
  keeps the sizes of the dimensions below an empty one no longer, so the properties
  proved are about tensors whose batch has its documented width. Where a property
  depends on what floats do and reals do not, the underflow of the kernel weights and
  the division of zero by zero, that stage is modelled in float arithmetic as well.
\<close>

type_synonym tensor1 = "real list"
type_synonym tensor2 = "real list list"
type_synonym tensor3 = "real list list list"
type_synonym tensor4 = "real list list list list"

datatype error = KeyError string | IndexError | TypeError | RuntimeError string

definition bind_res :: "error + 'a \<Rightarrow> ('a \<Rightarrow> error + 'b) \<Rightarrow> error + 'b" where
  "bind_res r f = (case r of Inl e \<Rightarrow> Inl e | Inr x \<Rightarrow> f x)"

fun sequence_res :: "(error + 'a) list \<Rightarrow> error + 'a list" where
  "sequence_res [] = Inr []"
| "sequence_res (r # rs) =
     (case r of
        Inl e \<Rightarrow> Inl e
      | Inr x \<Rightarrow> (case sequence_res rs of Inl e \<Rightarrow> Inl e | Inr xs \<Rightarrow> Inr (x # xs)))"

text \<open>
  Broadcasting of a binary operation along one dimension, as torch does it: equal sizes
  are paired, a size of one is repeated, anything else raises. Nesting it once per
  dimension gives the operation on tensors of that rank.
\<close>

definition broadcast :: "('a \<Rightarrow> 'b \<Rightarrow> error + 'c) \<Rightarrow> 'a list \<Rightarrow> 'b list \<Rightarrow> error + 'c list" where
  "broadcast f xs ys =
     (if length xs = length ys then sequence_res (map2 f xs ys)
      else if length xs = 1 then sequence_res (map (f (hd xs)) ys)
      else if length ys = 1 then sequence_res (map (\<lambda>x. f x (hd ys)) xs)
      else Inl (RuntimeError ''broadcast''))"

definition scalar_op :: "(real \<Rightarrow> real \<Rightarrow> real) \<Rightarrow> real \<Rightarrow> real \<Rightarrow> error + real" where
  "scalar_op g x y = Inr (g x y)"

definition tensor_op2 :: "(real \<Rightarrow> real \<Rightarrow> real) \<Rightarrow> tensor2 \<Rightarrow> tensor2 \<Rightarrow> error + tensor2" where
  "tensor_op2 g = broadcast (broadcast (scalar_op g))"

definition tensor_op3 :: "(real \<Rightarrow> real \<Rightarrow> real) \<Rightarrow> tensor3 \<Rightarrow> tensor3 \<Rightarrow> error + tensor3" where
  "tensor_op3 g = broadcast (broadcast (broadcast (scalar_op g)))"

definition tensor_op4 :: "(real \<Rightarrow> real \<Rightarrow> real) \<Rightarrow> tensor4 \<Rightarrow> tensor4 \<Rightarrow> error + tensor4" where
  "tensor_op4 g = broadcast (broadcast (broadcast (broadcast (scalar_op g))))"

definition zeros_like :: "tensor2 \<Rightarrow> tensor2" where
  "zeros_like t = map (map (\<lambda>_. 0)) t"

text \<open>\<open>rows_of n k xs\<close> cuts the flat data \<open>xs\<close> into \<open>n\<close> rows of \<open>k\<close> entries.\<close>

definition rows_of :: "nat \<Rightarrow> nat \<Rightarrow> 'a list \<Rightarrow> 'a list list" where
  "rows_of n k xs = map (\<lambda>i. take k (drop (i * k) xs)) [0..<n]"

text \<open>
  \<^verbatim>\<open>t.view(-1, d1, d2)\<close> on a tensor of rank 2: the number of entries has to be a
  multiple of \<open>d1 * d2\<close>, which must not be zero.
\<close>

definition view_infer0_3 :: "nat \<Rightarrow> nat \<Rightarrow> tensor2 \<Rightarrow> error + tensor3" where
  "view_infer0_3 d1 d2 t =
     (let flat = concat t; newsize = d1 * d2 in
      if 0 < newsize \<and> length flat mod newsize = 0
      then Inr (map (rows_of d1 d2) (rows_of (length flat div newsize) newsize flat))
      else Inl (RuntimeError ''view''))"

text \<open>\<^verbatim>\<open>t.view(-1, d)\<close> on a tensor of rank 3.\<close>

definition view_infer0_2 :: "nat \<Rightarrow> tensor3 \<Rightarrow> error + tensor2" where
  "view_infer0_2 d t =
     (let flat = concat (concat t) in
      if 0 < d \<and> length flat mod d = 0
      then Inr (rows_of (length flat div d) d flat)
      else Inl (RuntimeError ''view''))"

text \<open>
  \<^verbatim>\<open>t.view(bs, -1, 3)\<close> on a tensor of rank 2: the number of entries has to be a
  multiple of \<open>bs * 3\<close>, which must not be zero.
\<close>

definition view_infer1_3 :: "nat \<Rightarrow> nat \<Rightarrow> tensor2 \<Rightarrow> error + tensor3" where
  "view_infer1_3 bs d2 t =
     (let flat = concat t; newsize = bs * d2 in
      if 0 < newsize \<and> length flat mod newsize = 0
      then (let v = length flat div newsize in
            Inr (map (rows_of v d2) (rows_of bs (v * d2) flat)))
      else Inl (RuntimeError ''view''))"

text \<open>
  \<^verbatim>\<open>mask[:, idx, :] = v\<close> on one batch element: the rows listed in \<open>idx\<close> are
  filled with \<open>v\<close>, and an index beyond the dimension raises.
\<close>

fun index_fill :: "'a list list \<Rightarrow> nat list \<Rightarrow> 'a \<Rightarrow> error + 'a list list" where
  "index_fill b [] v = Inr b"
| "index_fill b (j # js) v =
     (if j < length b then index_fill (b[j := map (\<lambda>_. v) (b ! j)]) js v
      else Inl IndexError)"

text \<open>\<^verbatim>\<open>mask[:, idx] = v\<close> on one row: the columns listed in \<open>idx\<close> are set to \<open>v\<close>.\<close>

fun index_put :: "'a list \<Rightarrow> nat list \<Rightarrow> 'a \<Rightarrow> error + 'a list" where
  "index_put r [] v = Inr r"
| "index_put r (j # js) v =
     (if j < length r then index_put (r[j := v]) js v else Inl IndexError)"

section \<open>Input masking\<close>

text \<open>The table \<^verbatim>\<open>VALID_THETA\<close>: the joints that deform each garment.\<close>

definition VALID_THETA :: "string \<Rightarrow> nat list option" where
  "VALID_THETA = map_of
     [(''t-shirt'', [0, 1, 2, 3, 6, 9, 12, 13, 14, 16, 17, 18, 19]),
      (''old-t-shirt'', [0, 1, 2, 3, 6, 9, 12, 13, 14, 16, 17, 18, 19]),
      (''shirt'', [0, 1, 2, 3, 6, 9, 12, 13, 14, 16, 17, 18, 19, 20, 21]),
      (''pant'', [0, 1, 2, 4, 5, 7, 8]),
      (''skirt'', [0, 1, 2])]"

text \<open>
  \<^verbatim>\<open>mask_thetas\<close>: the lookup in the table comes first, so an unknown garment is a
  \<open>KeyError\<close> whatever the tensor; then a mask of zeros is viewed as joints by
  components, the valid joints are set to one, and the mask, viewed flat again, is
  multiplied with the input.
\<close>

definition mask_thetas :: "tensor2 \<Rightarrow> string \<Rightarrow> error + tensor2" where
  "mask_thetas thetas cloth_type =
     (case VALID_THETA cloth_type of
        None \<Rightarrow> Inl (KeyError cloth_type)
      | Some valid_theta \<Rightarrow>
          bind_res (view_infer0_3 24 3 (zeros_like thetas)) (\<lambda>mask.
          bind_res (sequence_res (map (\<lambda>b. index_fill b valid_theta 1) mask)) (\<lambda>mask.
          bind_res (view_infer0_2 72 mask) (\<lambda>mask.
          tensor_op2 (*) thetas mask))))"

text \<open>\<^verbatim>\<open>mask_betas\<close>: the garment is not looked at; columns 0 and 1 are kept.\<close>

definition mask_betas :: "tensor2 \<Rightarrow> string \<Rightarrow> error + tensor2" where
  "mask_betas betas cloth_type =
     (let valid_beta = [0, 1] in
      bind_res (sequence_res (map (\<lambda>r. index_put r valid_beta 1) (zeros_like betas))) (\<lambda>mask.
      tensor_op2 (*) betas mask))"

text \<open>
  \<^verbatim>\<open>mask_gammas\<close>: columns 0 and 1 are kept, and for the garment
  \<^verbatim>\<open>old-t-shirt\<close> the row \<open>(0, 0, 1.5, 0)\<close> is added to every sample.
\<close>

definition mask_gammas :: "tensor2 \<Rightarrow> string \<Rightarrow> error + tensor2" where
  "mask_gammas gammas cloth_type =
     (let valid_gamma = [0, 1] in
      bind_res (sequence_res (map (\<lambda>r. index_put r valid_gamma 1) (zeros_like gammas))) (\<lambda>mask.
      bind_res (tensor_op2 (*) gammas mask) (\<lambda>gammas.
      if cloth_type = ''old-t-shirt''
      then tensor_op2 (+) gammas [[0, 0, 1.5, 0]]
      else Inr gammas)))"

text \<open>\<^verbatim>\<open>mask_inputs\<close>: each input that is not \<^verbatim>\<open>None\<close> is masked, in this order.\<close>

definition mask_inputs ::
  "tensor2 option \<Rightarrow> tensor2 option \<Rightarrow> tensor2 option \<Rightarrow> string
     \<Rightarrow> error + (tensor2 option \<times> tensor2 option \<times> tensor2 option)" where
  "mask_inputs thetas betas gammas cloth_type =
     bind_res (case thetas of None \<Rightarrow> Inr None
               | Some t \<Rightarrow> bind_res (mask_thetas t cloth_type) (\<lambda>t'. Inr (Some t'))) (\<lambda>thetas.
     bind_res (case betas of None \<Rightarrow> Inr None
               | Some b \<Rightarrow> bind_res (mask_betas b cloth_type) (\<lambda>b'. Inr (Some b'))) (\<lambda>betas.
     bind_res (case gammas of None \<Rightarrow> Inr None
               | Some g \<Rightarrow> bind_res (mask_gammas g cloth_type) (\<lambda>g'. Inr (Some g'))) (\<lambda>gammas.
     Inr (thetas, betas, gammas))))"

section \<open>Feed-forward networks\<close>

text \<open>
  \<^verbatim>\<open>nn.Linear\<close> holds a weight of \<open>out_features\<close> rows of \<open>in_features\<close> entries
  and a bias of \<open>out_features\<close> entries; applied to a batch it maps every row \<open>x\<close> to
  \<open>W x + b\<close>, and a row of another width raises. The parameters are those held after
  construction and checkpoint loading; inference never writes them.
\<close>

record linear =
  in_features :: nat
  out_features :: nat
  l_weight :: tensor2
  l_bias :: tensor1

datatype module = Linear linear | ReLU | Dropout real

definition linear_forward :: "linear \<Rightarrow> tensor2 \<Rightarrow> error + tensor2" where
  "linear_forward l x =
     (if list_all (\<lambda>r. length r = in_features l) x
      then Inr (map (\<lambda>r. map2 (\<lambda>w b. sum_list (map2 (*) r w) + b) (l_weight l) (l_bias l)) x)
      else Inl (RuntimeError ''linear''))"

text \<open>
  The modules are run as at inference (\<^verbatim>\<open>TailorNet.eval\<close> puts every sub-model in
  evaluation mode), where \<^verbatim>\<open>nn.Dropout\<close> is the identity.
\<close>

fun module_forward :: "module \<Rightarrow> tensor2 \<Rightarrow> error + tensor2" where
  "module_forward (Linear l) x = linear_forward l x"
| "module_forward ReLU x = Inr (map (map (max 0)) x)"
| "module_forward (Dropout p) x = Inr x"

text \<open>\<^verbatim>\<open>nn.Sequential\<close>: the modules in order, each on the output of the one before.\<close>

fun Sequential_forward :: "module list \<Rightarrow> tensor2 \<Rightarrow> error + tensor2" where
  "Sequential_forward [] x = Inr x"
| "Sequential_forward (m # ms) x = bind_res (module_forward m x) (Sequential_forward ms)"

text \<open>
  \<^verbatim>\<open>FullyConnected.__init__\<close>: a first linear layer with ReLU and dropout,
  \<open>num_layers - 2\<close> hidden layers with ReLU, and a last linear layer. The parameters of
  layer \<open>i\<close>, of the sizes asked for, come from \<open>mk\<close>.
\<close>

definition FullyConnected ::
  "(nat \<Rightarrow> nat \<Rightarrow> nat \<Rightarrow> linear) \<Rightarrow> nat \<Rightarrow> nat \<Rightarrow> nat \<Rightarrow> nat \<Rightarrow> module list" where
  "FullyConnected mk input_size output_size hidden_size num_layers =
     [Linear (mk 0 input_size hidden_size), ReLU, Dropout 0.2]
     @ concat (map (\<lambda>i. [Linear (mk (Suc i) hidden_size hidden_size), ReLU]) [0..<num_layers - 2])
     @ [Linear (mk (Suc (num_layers - 2)) hidden_size output_size)]"

text \<open>
  \<^verbatim>\<open>torch.cat(ts, dim=1)\<close> on tensors of rank 2: the rows of the tensors are joined,
  and tensors with different numbers of rows raise.
\<close>

definition cat1 :: "tensor2 list \<Rightarrow> error + tensor2" where
  "cat1 ts =
     (case ts of
        [] \<Rightarrow> Inl (RuntimeError ''cat'')
      | t # rest \<Rightarrow>
          if list_all (\<lambda>u. length u = length t) rest
          then Inr (map (\<lambda>i. concat (map (\<lambda>u. u ! i) ts)) [0..<length t])
          else Inl (RuntimeError ''cat''))"

section \<open>The sub-models\<close>

record TailorNetLF =
  lf_cloth_type :: string
  lf_mlp :: "module list"

record TailorNetHF =
  hf_cloth_type :: string
  hf_mlp :: "module list"

record TailorNetSS2G =
  ss2g_cloth_type :: string
  ss2g_mlp :: "module list"

text \<open>The constructors: the garment of the parameter file and a network of the sizes given.\<close>

definition TailorNetLF_init ::
  "(nat \<Rightarrow> nat \<Rightarrow> nat \<Rightarrow> linear) \<Rightarrow> string \<Rightarrow> nat \<Rightarrow> nat \<Rightarrow> nat \<Rightarrow> TailorNetLF" where
  "TailorNetLF_init mk garment_class hidden_size num_layers n_verts =
     \<lparr>lf_cloth_type = garment_class,
      lf_mlp = FullyConnected mk (72 + 10 + 4) n_verts hidden_size num_layers\<rparr>"

definition TailorNetHF_init ::
  "(nat \<Rightarrow> nat \<Rightarrow> nat \<Rightarrow> linear) \<Rightarrow> string \<Rightarrow> nat \<Rightarrow> nat \<Rightarrow> nat \<Rightarrow> TailorNetHF" where
  "TailorNetHF_init mk garment_class hidden_size num_layers n_verts =
     \<lparr>hf_cloth_type = garment_class,
      hf_mlp = FullyConnected mk 72 n_verts hidden_size num_layers\<rparr>"

definition TailorNetSS2G_init ::
  "(nat \<Rightarrow> nat \<Rightarrow> nat \<Rightarrow> linear) \<Rightarrow> string \<Rightarrow> nat \<Rightarrow> nat \<Rightarrow> nat \<Rightarrow> TailorNetSS2G" where
  "TailorNetSS2G_init mk garment_class hidden_size num_layers n_verts =
     \<lparr>ss2g_cloth_type = garment_class,
      ss2g_mlp = FullyConnected mk (10 + 4) n_verts hidden_size num_layers\<rparr>"

text \<open>
  \<^verbatim>\<open>TailorNetLF.forward\<close>: the three inputs are masked, joined row by row and given
  to the network.
\<close>

definition TailorNetLF_forward ::
  "TailorNetLF \<Rightarrow> tensor2 \<Rightarrow> tensor2 \<Rightarrow> tensor2 \<Rightarrow> error + tensor2" where
  "TailorNetLF_forward m thetas betas gammas =
     bind_res (mask_inputs (Some thetas) (Some betas) (Some gammas) (lf_cloth_type m)) (\<lambda>masked.
       case masked of
         (Some thetas, Some betas, Some gammas) \<Rightarrow>
           bind_res (cat1 [thetas, betas, gammas]) (Sequential_forward (lf_mlp m))
       | _ \<Rightarrow> Inl TypeError)"

text \<open>
  \<^verbatim>\<open>TailorNetHF.forward\<close>: only theta is masked and given to the network; the
  parameters \<^verbatim>\<open>betas\<close> and \<^verbatim>\<open>gammas\<close>, \<^verbatim>\<open>None\<close> by default, are not read.
\<close>

definition TailorNetHF_forward ::
  "TailorNetHF \<Rightarrow> tensor2 \<Rightarrow> tensor2 option \<Rightarrow> tensor2 option \<Rightarrow> error + tensor2" where
  "TailorNetHF_forward m thetas betas gammas =
     bind_res (mask_thetas thetas (hf_cloth_type m)) (\<lambda>thetas.
       Sequential_forward (hf_mlp m) thetas)"

text \<open>
  \<^verbatim>\<open>TailorNetSS2G.forward\<close>: beta and gamma are masked with no theta, joined and
  given to the network; joining an absent input is a type error. The parameter
  \<^verbatim>\<open>thetas\<close> is not read.
\<close>

definition TailorNetSS2G_forward ::
  "TailorNetSS2G \<Rightarrow> tensor2 option \<Rightarrow> tensor2 option \<Rightarrow> tensor2 option \<Rightarrow> error + tensor2" where
  "TailorNetSS2G_forward m thetas betas gammas =
     bind_res (mask_inputs None betas gammas (ss2g_cloth_type m)) (\<lambda>masked.
       case masked of
         (_, Some betas, Some gammas) \<Rightarrow>
           bind_res (cat1 [betas, gammas]) (Sequential_forward (ss2g_mlp m))
       | _ \<Rightarrow> Inl TypeError)"

section \<open>The garment deformation predictor\<close>

text \<open>
  Of the fields of \<^verbatim>\<open>TailorNet\<close>, inference reads the canonical basis (one rest-pose
  vertex field per pivot), the sub-models and the kernel bandwidth.
\<close>

record TailorNet =
  basis :: tensor3
  tailornet_lf :: TailorNetLF
  tailornet_hfs :: "TailorNetHF list"
  tailornet_ss2g :: TailorNetSS2G
  kernel_sigma :: real

definition unsqueeze0 :: "'a \<Rightarrow> 'a list" where
  "unsqueeze0 t = [t]"

definition unsqueeze1 :: "'a list \<Rightarrow> 'a list list" where
  "unsqueeze1 t = map (\<lambda>x. [x]) t"

definition mean :: "real list \<Rightarrow> real" where
  "mean xs = sum_list xs / real (length xs)"

text \<open>\<^verbatim>\<open>t.sum(0)\<close> on a tensor of rank 3 with at least one entry in dimension 0.\<close>

definition sum_dim0 :: "tensor3 \<Rightarrow> tensor2" where
  "sum_dim0 ms = (case ms of [] \<Rightarrow> [] | m # rest \<Rightarrow> foldl (map2 (map2 (+))) m rest)"

text \<open>
  Lines 304 and 305 of \<^verbatim>\<open>interp4\<close>: the difference of the rest vertices and the
  basis, broadcast over batch and pivots, squared, summed over the coordinates,
  averaged over the vertices and scaled by 1000.
\<close>

definition interp4_dist :: "tensor3 \<Rightarrow> tensor3 \<Rightarrow> error + tensor2" where
  "interp4_dist rest_verts basis_v =
     bind_res (tensor_op4 (-) (unsqueeze1 rest_verts) (unsqueeze0 basis_v)) (\<lambda>dists.
       Inr (map (map (\<lambda>d. mean (map (\<lambda>v. sum_list (map (\<lambda>x. x ^ 2) v)) d) * 1000)) dists))"

text \<open>
  Lines 309 to 311: the kernel weights \<open>exp (- dist / sigma)\<close>, each divided by the sum
  of its row (\<^verbatim>\<open>weight.sum(1, keepdim=True)\<close>). Nothing else is done to them. This is
  the stage in exact arithmetic, where no weight is zero; what the floats of the source
  do when the weights underflow is modelled by \<open>interp4_weight_f32\<close> below.
\<close>

definition interp4_weight :: "real \<Rightarrow> tensor2 \<Rightarrow> error + tensor2" where
  "interp4_weight sigma dists =
     (let weight = map (map (\<lambda>d. exp (- d / sigma))) dists in
      tensor_op2 (/) weight (map (\<lambda>w. [sum_list w]) weight))"

text \<open>
  Line 314: the pivot fields times the weights, broadcast over vertices and
  coordinates, summed over the pivots.
\<close>

definition interp4_blend :: "tensor4 \<Rightarrow> tensor2 \<Rightarrow> error + tensor3" where
  "interp4_blend pred_disp_pivot weight =
     bind_res (tensor_op4 (*) pred_disp_pivot (map (map (\<lambda>w. [[w]])) weight)) (\<lambda>prod.
       Inr (map sum_dim0 prod))"

definition interp4 ::
  "TailorNet \<Rightarrow> tensor2 \<Rightarrow> tensor2 \<Rightarrow> tensor2 \<Rightarrow> tensor4 \<Rightarrow> real \<Rightarrow> error + tensor3" where
  "interp4 net thetas betas gammas pred_disp_pivot sigma =
     (let bs = length pred_disp_pivot in
      bind_res (bind_res (TailorNetSS2G_forward (tailornet_ss2g net) None (Some betas) (Some gammas))
                  (view_infer1_3 bs 3)) (\<lambda>rest_verts.
      bind_res (interp4_dist rest_verts (basis net)) (\<lambda>dists.
      bind_res (interp4_weight sigma dists) (\<lambda>weight.
      interp4_blend pred_disp_pivot weight))))"

text \<open>
  \<^verbatim>\<open>torch.stack\<close> wants at least one tensor and tensors of one shape;
  \<^verbatim>\<open>transpose(0, 1)\<close> then puts the batch before the pivots.
\<close>

definition stack :: "tensor3 list \<Rightarrow> error + tensor4" where
  "stack ts =
     (case ts of
        [] \<Rightarrow> Inl (RuntimeError ''stack'')
      | t # rest \<Rightarrow>
          if list_all (\<lambda>u. map (map length) u = map (map length) t) rest
          then Inr ts
          else Inl (RuntimeError ''stack''))"

definition transpose01 :: "'a list list \<Rightarrow> 'a list list" where
  "transpose01 ts = (case ts of [] \<Rightarrow> [] | t # _ \<Rightarrow> map (\<lambda>i. map (\<lambda>u. u ! i) ts) [0..<length t])"

text \<open>
  \<^verbatim>\<open>TailorNet.forward\<close>: every high-frequency sub-model is run on the inputs, in
  order, and its output viewed as vertices; the outputs are stacked and blended by
  \<^verbatim>\<open>interp4\<close>; the low-frequency sub-model is run; the two fields are added. There
  is no check of the inputs before the first sub-model runs.
\<close>

definition forward :: "TailorNet \<Rightarrow> tensor2 \<Rightarrow> tensor2 \<Rightarrow> tensor2 \<Rightarrow> error + tensor3" where
  "forward net betas thetas gammas =
     (let batch_size = length thetas in
      bind_res (sequence_res (map (\<lambda>tailornet_hf.
                  bind_res (TailorNetHF_forward tailornet_hf thetas (Some betas) (Some gammas))
                    (view_infer1_3 batch_size 3)) (tailornet_hfs net))) (\<lambda>outs.
      bind_res (stack outs) (\<lambda>stacked.
      let pred_disp_hf_pivot = transpose01 stacked in
      bind_res (interp4 net thetas betas gammas pred_disp_hf_pivot (kernel_sigma net)) (\<lambda>pred_disp_hf.
      bind_res (bind_res (TailorNetLF_forward (tailornet_lf net) thetas betas gammas)
                  (view_infer1_3 batch_size 3)) (\<lambda>pred_disp_lf.
      tensor_op3 (+) pred_disp_lf pred_disp_hf)))))"


section \<open>The weights in float arithmetic\<close>

text \<open>
  The source computes in 32-bit floats. For lines 309 to 314 two effects of that
  arithmetic decide the outcome, and they are modelled here: \<^verbatim>\<open>torch.exp\<close> returns
  zero when the exact value is at most \<open>1 / 2 ^ 150\<close>, half the smallest positive float
  (and infinity from \<open>2 ^ 128 - 2 ^ 103\<close> on), and a division by zero raises nothing: it
  gives an infinity, or, for \<open>0 / 0\<close>, the value NaN, which every later operation hands
  on. A float is a real number, an infinity or NaN; the rounding of a finite result is
  not modelled, and the two zeros are not told apart.
\<close>

datatype f32 = Finite real | PosInf | NegInf | NaN

fun f_add :: "f32 \<Rightarrow> f32 \<Rightarrow> f32" where
  "f_add (Finite a) (Finite b) = Finite (a + b)"
| "f_add NaN y = NaN"
| "f_add x NaN = NaN"
| "f_add PosInf NegInf = NaN"
| "f_add NegInf PosInf = NaN"
| "f_add PosInf y = PosInf"
| "f_add x PosInf = PosInf"
| "f_add NegInf y = NegInf"
| "f_add x NegInf = NegInf"

fun f_mul :: "f32 \<Rightarrow> f32 \<Rightarrow> f32" where
  "f_mul (Finite a) (Finite b) = Finite (a * b)"
| "f_mul NaN y = NaN"
| "f_mul x NaN = NaN"
| "f_mul (Finite a) PosInf = (if a = 0 then NaN else if 0 < a then PosInf else NegInf)"
| "f_mul (Finite a) NegInf = (if a = 0 then NaN else if 0 < a then NegInf else PosInf)"
| "f_mul PosInf (Finite b) = (if b = 0 then NaN else if 0 < b then PosInf else NegInf)"
| "f_mul NegInf (Finite b) = (if b = 0 then NaN else if 0 < b then NegInf else PosInf)"
| "f_mul PosInf PosInf = PosInf"
| "f_mul PosInf NegInf = NegInf"
| "f_mul NegInf PosInf = NegInf"
| "f_mul NegInf NegInf = PosInf"

fun f_div :: "f32 \<Rightarrow> f32 \<Rightarrow> f32" where
  "f_div (Finite a) (Finite b) =
     (if b = 0 then (if a = 0 then NaN else if 0 < a then PosInf else NegInf)
      else Finite (a / b))"
| "f_div NaN y = NaN"
| "f_div x NaN = NaN"
| "f_div (Finite a) PosInf = Finite 0"
| "f_div (Finite a) NegInf = Finite 0"
| "f_div PosInf (Finite b) = (if 0 \<le> b then PosInf else NegInf)"
| "f_div NegInf (Finite b) = (if 0 \<le> b then NegInf else PosInf)"
| "f_div PosInf PosInf = NaN"
| "f_div PosInf NegInf = NaN"
| "f_div NegInf PosInf = NaN"
| "f_div NegInf NegInf = NaN"

fun exp_f32 :: "f32 \<Rightarrow> f32" where
  "exp_f32 (Finite x) =
     (if exp x \<le> 1 / 2 ^ 150 then Finite 0
      else if 2 ^ 128 - 2 ^ 103 \<le> exp x then PosInf
      else Finite (exp x))"
| "exp_f32 PosInf = PosInf"
| "exp_f32 NegInf = Finite 0"
| "exp_f32 NaN = NaN"

text \<open>\<^verbatim>\<open>w.sum()\<close> of one row.\<close>

fun f_sum :: "f32 list \<Rightarrow> f32" where
  "f_sum [] = Finite 0"
| "f_sum (x # xs) = f_add x (f_sum xs)"

text \<open>
  Lines 309 to 311 in this arithmetic: \<^verbatim>\<open>torch.exp(-dist/sigma)\<close>, then every weight
  divided by the sum of its row. There is no test of the sum.
\<close>

definition interp4_weight_f32 :: "real \<Rightarrow> tensor2 \<Rightarrow> error + f32 list list" where
  "interp4_weight_f32 sigma dists =
     (let weight = map (map (\<lambda>d. exp_f32 (f_div (Finite (- d)) (Finite sigma)))) dists in
      broadcast (broadcast (\<lambda>w s. Inr (f_div w s))) weight (map (\<lambda>w. [f_sum w]) weight))"

text \<open>\<^verbatim>\<open>t.sum(0)\<close> on a tensor of floats of rank 3.\<close>

definition sum_dim0_f32 :: "f32 list list list \<Rightarrow> f32 list list" where
  "sum_dim0_f32 ms = (case ms of [] \<Rightarrow> [] | m # rest \<Rightarrow> foldl (map2 (map2 f_add)) m rest)"

text \<open>Line 314 in this arithmetic: the pivot fields times the weights, summed over the pivots.\<close>

definition interp4_blend_f32 :: "tensor4 \<Rightarrow> f32 list list \<Rightarrow> error + f32 list list list" where
  "interp4_blend_f32 pred_disp_pivot weight =
     bind_res (broadcast (broadcast (broadcast (broadcast (\<lambda>x w. Inr (f_mul (Finite x) w)))))
                 pred_disp_pivot (map (map (\<lambda>w. [[w]])) weight)) (\<lambda>prod.
       Inr (map sum_dim0_f32 prod))"


section \<open>Auxiliary notions for the proofs\<close>

definition joint_mask :: "nat list \<Rightarrow> real list" where
  "joint_mask valid = concat (map (\<lambda>j. replicate 3 (if j \<in> set valid then 1 else 0)) [0..<24])"

definition column_mask :: "nat \<Rightarrow> real list" where
  "column_mask n = map (\<lambda>j. if j < 2 then 1 else 0) [0..<n]"

definition key_error :: "error \<Rightarrow> bool" where
  "key_error e = (case e of KeyError _ \<Rightarrow> True | _ \<Rightarrow> False)"

definition is_KeyError :: "error + 'a \<Rightarrow> bool" where
  "is_KeyError r = (case r of Inl e \<Rightarrow> key_error e | Inr _ \<Rightarrow> False)"

definition has_width :: "nat \<Rightarrow> tensor2 option \<Rightarrow> bool" where
  "has_width w x = (case x of None \<Rightarrow> True | Some t \<Rightarrow> list_all (\<lambda>r. length r = w) t)"

text \<open>Shapes of nested lists: \<open>has_shape2 n w t\<close> says that \<open>t\<close> is an \<open>n \<times> w\<close> tensor.\<close>

definition has_shape2 :: "nat \<Rightarrow> nat \<Rightarrow> 'a list list \<Rightarrow> bool" where
  "has_shape2 n w t = (length t = n \<and> list_all (\<lambda>r. length r = w) t)"

definition has_shape3 :: "nat \<Rightarrow> nat \<Rightarrow> nat \<Rightarrow> 'a list list list \<Rightarrow> bool" where
  "has_shape3 n v d t = (length t = n \<and> list_all (has_shape2 v d) t)"

definition has_shape4 :: "nat \<Rightarrow> nat \<Rightarrow> nat \<Rightarrow> nat \<Rightarrow> 'a list list list list \<Rightarrow> bool" where
  "has_shape4 n p v d t = (length t = n \<and> list_all (has_shape3 p v d) t)"

text \<open>
  A linear layer is well formed when its parameters have the sizes it declares, and
  \<open>mlp_out ms n\<close> is the output width of the modules \<open>ms\<close> on rows of width \<open>n\<close>, if
  the layers are well formed and their sizes fit.
\<close>

definition linear_ok :: "linear \<Rightarrow> bool" where
  "linear_ok l = (length (l_weight l) = out_features l \<and> length (l_bias l) = out_features l
                  \<and> list_all (\<lambda>w. length w = in_features l) (l_weight l))"

fun mlp_out :: "module list \<Rightarrow> nat \<Rightarrow> nat option" where
  "mlp_out [] n = Some n"
| "mlp_out (Linear l # ms) n =
     (if linear_ok l \<and> in_features l = n then mlp_out ms (out_features l) else None)"
| "mlp_out (ReLU # ms) n = mlp_out ms n"
| "mlp_out (Dropout p # ms) n = mlp_out ms n"

text \<open>
  A predictor for \<open>P\<close> pivots and \<open>V\<close> vertices: a basis of that shape, one
  high-frequency sub-model per pivot, every network of the input width of its
  constructor and of output width \<open>3 V\<close>, the garments of the sub-models that mask
  theta in the table, and a bandwidth that is not zero.
\<close>

definition valid_net :: "TailorNet \<Rightarrow> nat \<Rightarrow> nat \<Rightarrow> bool" where
  "valid_net net P V =
     (0 < P \<and> 0 < V \<and> has_shape3 P V 3 (basis net) \<and> length (tailornet_hfs net) = P
      \<and> list_all (\<lambda>hf. mlp_out (hf_mlp hf) 72 = Some (3 * V)
                        \<and> VALID_THETA (hf_cloth_type hf) \<noteq> None) (tailornet_hfs net)
      \<and> mlp_out (lf_mlp (tailornet_lf net)) 86 = Some (3 * V)
      \<and> VALID_THETA (lf_cloth_type (tailornet_lf net)) \<noteq> None
      \<and> mlp_out (ss2g_mlp (tailornet_ss2g net)) 14 = Some (3 * V)
      \<and> kernel_sigma net \<noteq> 0)"

text \<open>A batch of \<open>N\<close> samples: at least one, and of the widths 72, 10 and 4.\<close>

definition valid_input :: "nat \<Rightarrow> tensor2 \<Rightarrow> tensor2 \<Rightarrow> tensor2 \<Rightarrow> bool" where
  "valid_input N thetas betas gammas =
     (0 < N \<and> has_shape2 N 72 thetas \<and> has_shape2 N 10 betas \<and> has_shape2 N 4 gammas)"

text \<open>
  The kernel blending as the specification words it, by indices: \<open>spec_dist\<close> is the
  mean over the vertices of the squared Euclidean distance between the rest vertices
  of batch element \<open>b\<close> and the basis of pivot \<open>p\<close>, times 1000; \<open>spec_weight\<close> is
  \<open>exp (- dist / sigma)\<close>; \<open>spec_blend\<close> is the sum over the pivots of the normalised
  weight times the pivot's field.
\<close>

definition spec_dist :: "tensor3 \<Rightarrow> tensor3 \<Rightarrow> nat \<Rightarrow> nat \<Rightarrow> real" where
  "spec_dist rest_verts basis_v b p =
     (let V = length (basis_v ! p) in
      sum_list (map (\<lambda>v. sum_list (map (\<lambda>c. (rest_verts ! b ! v ! c - basis_v ! p ! v ! c) ^ 2)
                                     [0..<3])) [0..<V]) / real V * 1000)"

definition spec_weight :: "real \<Rightarrow> tensor3 \<Rightarrow> tensor3 \<Rightarrow> nat \<Rightarrow> nat \<Rightarrow> real" where
  "spec_weight sigma rest_verts basis_v b p = exp (- spec_dist rest_verts basis_v b p / sigma)"

definition spec_blend ::
  "real \<Rightarrow> tensor3 \<Rightarrow> tensor3 \<Rightarrow> tensor4 \<Rightarrow> nat \<Rightarrow> nat \<Rightarrow> nat \<Rightarrow> real" where
  "spec_blend sigma rest_verts basis_v pivot b v c =
     (let P = length basis_v;
          total = sum_list (map (spec_weight sigma rest_verts basis_v b) [0..<P]) in
      sum_list (map (\<lambda>p. pivot ! b ! p ! v ! c
                          * (spec_weight sigma rest_verts basis_v b p / total)) [0..<P]))"


text \<open>
  A small predictor for the examples: two pivots, two vertices, networks with one hidden
  unit, all weights a quarter and the bias of layer \<open>i\<close> equal to \<open>i\<close>.
\<close>

definition example_mk :: "nat \<Rightarrow> nat \<Rightarrow> nat \<Rightarrow> linear" where
  "example_mk i n m =
     \<lparr>in_features = n, out_features = m,
      l_weight = replicate m (replicate n (1 / 4)), l_bias = replicate m (real i)\<rparr>"

definition example_hf :: TailorNetHF where
  "example_hf = TailorNetHF_init example_mk ''t-shirt'' 1 2 6"

definition example_net :: TailorNet where
  "example_net =
     \<lparr>basis = [[[0, 0, 0], [1, 0, 0]], [[0, 0, 1], [1, 1, 0]]],
      tailornet_lf = TailorNetLF_init example_mk ''t-shirt'' 1 2 6,
      tailornet_hfs = [example_hf, example_hf],
      tailornet_ss2g = TailorNetSS2G_init example_mk ''t-shirt'' 1 2 6,
      kernel_sigma = 1 / 100\<rparr>"


section \<open>Lemmas on tensors and masking\<close>

lemma bind_res_simps [simp]:
  "bind_res (Inl e) f = Inl e" "bind_res (Inr x) f = f x"
  by (simp_all add: bind_res_def)

lemma sequence_res_map_Inr:
  "(\<And>x. x \<in> set xs \<Longrightarrow> f x = Inr (g x)) \<Longrightarrow> sequence_res (map f xs) = Inr (map g xs)"
  by (induction xs) auto

lemma sequence_res_map_Inr_id: "sequence_res (map Inr xs) = Inr xs"
  by (induction xs) auto

lemma sequence_res_Inr_D: "sequence_res rs = Inr xs \<Longrightarrow> rs = map Inr xs"
  by (induction rs arbitrary: xs) (auto split: sum.splits)

lemma sequence_res_Inr_iff: "sequence_res rs = Inr xs \<longleftrightarrow> rs = map Inr xs"
  using sequence_res_Inr_D sequence_res_map_Inr_id by blast

lemma broadcast_same:
  assumes "length xs = length ys"
    and "\<And>i. i < length xs \<Longrightarrow> f (xs ! i) (ys ! i) = Inr (g (xs ! i) (ys ! i))"
  shows "broadcast f xs ys = Inr (map2 g xs ys)"
proof -
  have "map2 f xs ys = map Inr (map2 g xs ys)"
    using assms by (intro nth_equalityI) simp_all
  then show ?thesis
    using assms(1) by (simp add: broadcast_def sequence_res_Inr_iff)
qed

lemma broadcast_right:
  assumes "\<And>x. x \<in> set xs \<Longrightarrow> f x y = Inr (g x y)"
  shows "broadcast f xs [y] = Inr (map (\<lambda>x. g x y) xs)"
proof (cases "length xs = 1")
  case True
  then obtain x where "xs = [x]" by (cases xs) auto
  with assms show ?thesis by (simp add: broadcast_def)
next
  case False
  then show ?thesis using assms
    by (simp add: broadcast_def sequence_res_map_Inr)
qed

lemma broadcast_left:
  assumes "\<And>y. y \<in> set ys \<Longrightarrow> f x y = Inr (g x y)"
  shows "broadcast f [x] ys = Inr (map (g x) ys)"
proof (cases "length ys = 1")
  case True
  then obtain y where "ys = [y]" by (cases ys) auto
  with assms show ?thesis by (simp add: broadcast_def)
next
  case False
  then have "1 \<noteq> length ys" by simp
  then show ?thesis using assms
    by (simp add: broadcast_def sequence_res_map_Inr)
qed

lemma rows_of_concat:
  assumes "\<And>r. r \<in> set xss \<Longrightarrow> length r = k"
  shows "rows_of (length xss) k (concat xss) = xss"
  using assms
proof (induction xss rule: rev_induct)
  case Nil
  then show ?case by (simp add: rows_of_def)
next
  case (snoc r xss)
  have len: "length (concat xss) = length xss * k"
    using snoc.prems by (induction xss) auto
  have le: "k + i * k \<le> length xss * k" if "i < length xss" for i
  proof -
    from that have "Suc i \<le> length xss" by simp
    then have "Suc i * k \<le> length xss * k" by (rule mult_le_mono1)
    then show ?thesis by (simp add: add.commute)
  qed
  have IH: "map (\<lambda>i. take k (drop (i * k) (concat xss))) [0..<length xss] = xss"
    using snoc by (simp add: rows_of_def)
  have a: "map (\<lambda>i. take k (drop (i * k) (concat xss @ r))) [0..<length xss]
         = map (\<lambda>i. take k (drop (i * k) (concat xss))) [0..<length xss]"
    using len le by (intro map_cong refl) auto
  have b: "take k (drop (length xss * k) (concat xss @ r)) = r"
    using len snoc.prems by simp
  show ?case
    using a b IH by (simp add: rows_of_def)
qed

lemma length_concat_uniform:
  "(\<And>r. r \<in> set xss \<Longrightarrow> length r = k) \<Longrightarrow> length (concat xss) = length xss * k"
  by (induction xss) auto

lemma index_fill_eq:
  "(\<And>j. j \<in> set js \<Longrightarrow> j < length b) \<Longrightarrow>
   index_fill b js v =
     Inr (map (\<lambda>j. if j \<in> set js then map (\<lambda>_. v) (b ! j) else b ! j) [0..<length b])"
proof (induction js arbitrary: b)
  case Nil
  then show ?case by (simp add: map_nth)
next
  case (Cons j js)
  then show ?case
    by (auto simp: nth_list_update intro!: nth_equalityI)
qed

lemma index_put_eq:
  "(\<And>j. j \<in> set js \<Longrightarrow> j < length r) \<Longrightarrow>
   index_put r js v = Inr (map (\<lambda>j. if j \<in> set js then v else r ! j) [0..<length r])"
proof (induction js arbitrary: r)
  case Nil
  then show ?case by (simp add: map_nth)
next
  case (Cons j js)
  then show ?case
    by (auto simp: nth_list_update intro!: nth_equalityI)
qed


lemma concat_replicate_replicate:
  "concat (replicate n (replicate k x)) = replicate (n * k) x"
  by (induction n) (simp_all add: replicate_add)

lemma rows_of_replicate:
  "rows_of n k (replicate (n * k) x) = replicate n (replicate k x)"
  using rows_of_concat [of "replicate n (replicate k x)" k]
  by (simp add: concat_replicate_replicate)

lemma concat_concat_replicate:
  "concat (concat (replicate n xs)) = concat (replicate n (concat xs))"
  by (induction n) simp_all

lemma sequence_res_replicate:
  "sequence_res (replicate n (Inr x)) = Inr (replicate n x)"
  by (induction n) simp_all

lemma zeros_like_uniform:
  "(\<And>r. r \<in> set t \<Longrightarrow> length r = k) \<Longrightarrow> zeros_like t = replicate (length t) (replicate k 0)"
  by (auto simp: zeros_like_def map_replicate_const intro!: nth_equalityI)

lemma length_concat_map_replicate:
  "length (concat (map (\<lambda>j. replicate m (f j)) [0..<n])) = n * m"
  by (induction n) simp_all

lemma nth_concat_map_replicate:
  "k < n * m \<Longrightarrow> concat (map (\<lambda>j. replicate m (f j)) [0..<n]) ! k = f (k div m)"
proof (induction n)
  case 0
  then show ?case by simp
next
  case (Suc n)
  show ?case
  proof (cases "k < n * m")
    case True
    then show ?thesis
      using Suc.IH by (simp add: nth_append length_concat_map_replicate)
  next
    case False
    then have "n * m \<le> k" by simp
    moreover from Suc.prems have "k < n * m + m" by (simp add: add.commute)
    ultimately have "k div m = n"
      by (metis Suc.prems div_nat_eqI mult.commute mult_Suc)
    then show ?thesis
      using False Suc.prems by (simp add: nth_append length_concat_map_replicate)
  qed
qed

lemma length_joint_mask: "length (joint_mask valid) = 72"
  by (simp add: joint_mask_def length_concat_map_replicate)

lemma nth_joint_mask:
  "k < 72 \<Longrightarrow> joint_mask valid ! k = (if k div 3 \<in> set valid then 1 else 0)"
  unfolding joint_mask_def
  using nth_concat_map_replicate [of k 24 3 "\<lambda>j. if j \<in> set valid then 1 else 0"]
  by simp

lemma VALID_THETA_bound:
  "VALID_THETA c = Some valid \<Longrightarrow> j \<in> set valid \<Longrightarrow> j < 24"
  by (auto simp: VALID_THETA_def split: if_splits)

lemma tensor_op2_rows:
  assumes "\<And>r. r \<in> set t \<Longrightarrow> length r = length m"
  shows "tensor_op2 g t (replicate (length t) m) = Inr (map (\<lambda>r. map2 g r m) t)"
proof -
  have inner: "broadcast (scalar_op g) r m = Inr (map2 g r m)" if "r \<in> set t" for r
    using assms [OF that] by (intro broadcast_same [where g = g]) (simp_all add: scalar_op_def)
  have "broadcast (broadcast (scalar_op g)) t (replicate (length t) m)
        = Inr (map2 (\<lambda>r m. map2 g r m) t (replicate (length t) m))"
    by (rule broadcast_same [where g = "\<lambda>r m. map2 g r m"]) (simp_all add: inner)
  also have "map2 (\<lambda>r m. map2 g r m) t (replicate (length t) m) = map (\<lambda>r. map2 g r m) t"
    by (intro nth_equalityI) simp_all
  finally show ?thesis by (simp add: tensor_op2_def)
qed

lemma mask_thetas_joint_mask:
  assumes shape: "\<And>r. r \<in> set thetas \<Longrightarrow> length r = 72"
    and tab: "VALID_THETA c = Some valid"
  shows "mask_thetas thetas c = Inr (map (\<lambda>r. map2 (*) r (joint_mask valid)) thetas)"
proof -
  let ?n = "length thetas"
  let ?mb = "map (\<lambda>j. replicate 3 (if j \<in> set valid then 1 else 0::real)) [0..<24]"
  have z: "zeros_like thetas = replicate ?n (replicate 72 0)"
    using shape by (rule zeros_like_uniform)
  have flat: "concat (zeros_like thetas) = replicate (?n * 72) 0"
    by (simp add: z concat_replicate_replicate)
  have r72: "rows_of 24 3 (replicate 72 (0::real)) = replicate 24 (replicate 3 0)"
    using rows_of_replicate [of 24 3 "0::real"] by simp
  have v1: "view_infer0_3 24 3 (zeros_like thetas)
            = Inr (replicate ?n (replicate 24 (replicate 3 0)))"
    by (simp add: view_infer0_3_def flat rows_of_replicate r72)
  have fill: "index_fill (replicate 24 (replicate 3 (0::real))) valid 1 = Inr ?mb"
  proof -
    have "index_fill (replicate 24 (replicate 3 (0::real))) valid 1
          = Inr (map (\<lambda>j. if j \<in> set valid then map (\<lambda>_. 1) (replicate 24 (replicate 3 (0::real)) ! j)
                          else replicate 24 (replicate 3 0) ! j) [0..<length (replicate 24 (replicate 3 (0::real)))])"
      using VALID_THETA_bound [OF tab] by (intro index_fill_eq) simp
    also have "\<dots> = Inr ?mb"
      by (auto intro!: nth_equalityI)
    finally show ?thesis .
  qed
  have cc: "concat (concat (replicate ?n ?mb)) = concat (replicate ?n (joint_mask valid))"
    by (simp add: joint_mask_def concat_concat_replicate)
  have len: "length (concat (replicate ?n (joint_mask valid))) = ?n * 72"
    using length_concat_uniform [of "replicate ?n (joint_mask valid)" 72]
    by (simp add: length_joint_mask)
  have v3: "view_infer0_2 72 (replicate ?n ?mb) = Inr (replicate ?n (joint_mask valid))"
    using rows_of_concat [of "replicate ?n (joint_mask valid)" 72]
    by (simp add: view_infer0_2_def cc len length_joint_mask Let_def)
  have v4: "tensor_op2 (*) thetas (replicate ?n (joint_mask valid))
            = Inr (map (\<lambda>r. map2 (*) r (joint_mask valid)) thetas)"
    by (intro tensor_op2_rows) (simp add: shape length_joint_mask)
  show ?thesis
    by (simp add: mask_thetas_def tab v1 fill sequence_res_replicate v3 v4)
qed


lemma tensor_op2_same:
  assumes "length t = length m"
    and "\<And>i. i < length t \<Longrightarrow> length (t ! i) = length (m ! i)"
  shows "tensor_op2 g t m = Inr (map2 (map2 g) t m)"
proof -
  have inner: "broadcast (scalar_op g) (t ! i) (m ! i) = Inr (map2 g (t ! i) (m ! i))"
    if "i < length t" for i
    using assms(2) [OF that]
    by (intro broadcast_same [where g = g]) (simp_all add: scalar_op_def)
  show ?thesis
    unfolding tensor_op2_def
    by (rule broadcast_same [where g = "map2 g"]) (simp_all add: assms(1) inner)
qed

lemma tensor_op2_row:
  assumes "\<And>r. r \<in> set t \<Longrightarrow> length r = length y"
  shows "tensor_op2 g t [y] = Inr (map (\<lambda>r. map2 g r y) t)"
proof -
  have inner: "broadcast (scalar_op g) r y = Inr (map2 g r y)" if "r \<in> set t" for r
    using assms [OF that] by (intro broadcast_same [where g = g]) (simp_all add: scalar_op_def)
  show ?thesis
    unfolding tensor_op2_def
    by (rule broadcast_right [where g = "map2 g"]) (simp add: inner)
qed

lemma index_put_zeros:
  assumes "2 \<le> length r"
  shows "index_put (map (\<lambda>_. 0::real) r) [0, 1] 1 = Inr (column_mask (length r))"
proof -
  have "index_put (map (\<lambda>_. 0::real) r) [0, 1] 1
        = Inr (map (\<lambda>j. if j \<in> set [0, 1] then 1 else map (\<lambda>_. 0::real) r ! j)
                 [0..<length (map (\<lambda>_. 0::real) r)])"
    using assms by (intro index_put_eq) auto
  also have "\<dots> = Inr (column_mask (length r))"
    by (auto simp: column_mask_def intro!: nth_equalityI)
  finally show ?thesis .
qed

lemma column_mask_rows:
  assumes "\<And>r. r \<in> set t \<Longrightarrow> 2 \<le> length r"
  shows "sequence_res (map (\<lambda>r. index_put r [0, 1] 1) (zeros_like t))
         = Inr (map (\<lambda>r. column_mask (length r)) t)"
  unfolding zeros_like_def map_map comp_def
  by (rule sequence_res_map_Inr) (rule index_put_zeros, rule assms)

lemma map2_map_same: "map2 f xs (map g xs) = map (\<lambda>x. f x (g x)) xs"
  by (induction xs) simp_all

lemma mask_betas_column_mask:
  assumes "\<And>r. r \<in> set betas \<Longrightarrow> 2 \<le> length r"
  shows "mask_betas betas c = Inr (map (\<lambda>r. map2 (*) r (column_mask (length r))) betas)"
proof -
  have cm: "sequence_res (map (\<lambda>r. index_put r [0, 1] 1) (zeros_like betas))
            = Inr (map (\<lambda>r. column_mask (length r)) betas)"
    using assms by (rule column_mask_rows)
  have "tensor_op2 (*) betas (map (\<lambda>r. column_mask (length r)) betas)
        = Inr (map2 (map2 (*)) betas (map (\<lambda>r. column_mask (length r)) betas))"
    by (intro tensor_op2_same) (simp_all add: column_mask_def)
  then have mul: "tensor_op2 (*) betas (map (\<lambda>r. column_mask (length r)) betas)
        = Inr (map (\<lambda>r. map2 (*) r (column_mask (length r))) betas)"
    by (simp only: map2_map_same)
  show ?thesis
    unfolding mask_betas_def Let_def cm bind_res_simps by (rule mul)
qed

lemma list4: "length r = 4 \<Longrightarrow> \<exists>a b c d. r = [a, b, c, d]"
  by (auto simp: length_Suc_conv eval_nat_numeral)

lemma mask_gammas_rows:
  assumes "\<And>r. r \<in> set gammas \<Longrightarrow> length r = 4"
  shows "mask_gammas gammas c =
         Inr (map (\<lambda>r. [r ! 0, r ! 1, if c = ''old-t-shirt'' then 1.5 else 0, 0]) gammas)"
proof -
  let ?m = "map (\<lambda>r. [r ! 0, r ! 1, 0, 0::real]) gammas"
  have cm: "sequence_res (map (\<lambda>r. index_put r [0, 1] 1) (zeros_like gammas))
            = Inr (map (\<lambda>r. column_mask (length r)) gammas)"
    using assms by (intro column_mask_rows) simp
  have "tensor_op2 (*) gammas (map (\<lambda>r. column_mask (length r)) gammas)
        = Inr (map2 (map2 (*)) gammas (map (\<lambda>r. column_mask (length r)) gammas))"
    by (intro tensor_op2_same) (simp_all add: column_mask_def)
  also have "map2 (map2 (*)) gammas (map (\<lambda>r. column_mask (length r)) gammas)
             = map (\<lambda>r. map2 (*) r (column_mask (length r))) gammas"
    by (simp only: map2_map_same)
  also have "\<dots> = ?m"
  proof (rule map_cong [OF refl])
    fix r assume "r \<in> set gammas"
    then obtain a b c d where "r = [a, b, c, d]"
      using list4 [of r] assms by auto
    then show "map2 (*) r (column_mask (length r)) = [r ! 0, r ! 1, 0, 0]"
      by (simp add: column_mask_def)
  qed
  finally have mul: "tensor_op2 (*) gammas (map (\<lambda>r. column_mask (length r)) gammas) = Inr ?m" .
  have add: "tensor_op2 (+) ?m [[0, 0, 1.5, 0]] = Inr (map (\<lambda>r. map2 (+) r [0, 0, 1.5, 0]) ?m)"
    by (intro tensor_op2_row) auto
  show ?thesis
    unfolding mask_gammas_def Let_def cm bind_res_simps mul
    using add by (simp add: comp_def)
qed


lemma key_error_simps [simp]:
  "key_error (KeyError k)" "\<not> key_error IndexError" "\<not> key_error TypeError"
  "\<not> key_error (RuntimeError m)"
  by (simp_all add: key_error_def)

lemma is_KeyError_simps [simp]:
  "is_KeyError (Inl e) = key_error e" "\<not> is_KeyError (Inr x)"
  by (simp_all add: is_KeyError_def)

lemma sequence_res_Inl: "sequence_res rs = Inl e \<Longrightarrow> Inl e \<in> set rs"
  by (induction rs) (auto split: sum.splits)

lemma is_KeyError_sequence_res:
  "\<not> is_KeyError (sequence_res rs)" if "\<And>r. r \<in> set rs \<Longrightarrow> \<not> is_KeyError r"
proof (cases "sequence_res rs")
  case (Inl e)
  then have "Inl e \<in> set rs" by (rule sequence_res_Inl)
  then have "\<not> is_KeyError (Inl e :: error + 'a)" by (rule that)
  then show ?thesis using Inl by simp
qed simp

lemma is_KeyError_bind_res:
  "\<not> is_KeyError r \<Longrightarrow> (\<And>x. \<not> is_KeyError (f x)) \<Longrightarrow> \<not> is_KeyError (bind_res r f)"
  by (cases r) simp_all

lemma is_KeyError_bind_res_Inr [simp]:
  "is_KeyError (bind_res r (\<lambda>x. Inr (g x))) = is_KeyError r"
  by (cases r) simp_all

lemma is_KeyError_broadcast:
  assumes "\<And>x y. \<not> is_KeyError (f x y)"
  shows "\<not> is_KeyError (broadcast f xs ys)"
  unfolding broadcast_def
  by (auto intro!: is_KeyError_sequence_res simp: assms)

lemma is_KeyError_tensor_op2: "\<not> is_KeyError (tensor_op2 g t m)"
  unfolding tensor_op2_def
  by (intro is_KeyError_broadcast) (simp add: scalar_op_def)

lemma is_KeyError_index_fill: "\<not> is_KeyError (index_fill b js v)"
  by (induction b js v rule: index_fill.induct) simp_all

lemma is_KeyError_index_put: "\<not> is_KeyError (index_put r js v)"
  by (induction r js v rule: index_put.induct) simp_all

lemma is_KeyError_view_infer0_3: "\<not> is_KeyError (view_infer0_3 a b t)"
  by (simp add: view_infer0_3_def Let_def)

lemma is_KeyError_view_infer0_2: "\<not> is_KeyError (view_infer0_2 a t)"
  by (simp add: view_infer0_2_def Let_def)

lemma is_KeyError_mask_thetas:
  "is_KeyError (mask_thetas t c) \<longleftrightarrow> VALID_THETA c = None"
proof (cases "VALID_THETA c")
  case None
  then show ?thesis by (simp add: mask_thetas_def)
next
  case (Some valid)
  have "\<not> is_KeyError (mask_thetas t c)"
    unfolding mask_thetas_def Some option.case
    by (intro is_KeyError_bind_res is_KeyError_sequence_res is_KeyError_view_infer0_3
        is_KeyError_view_infer0_2 is_KeyError_tensor_op2)
      (auto simp: is_KeyError_index_fill)
  with Some show ?thesis by simp
qed

lemma is_KeyError_mask_betas: "\<not> is_KeyError (mask_betas b c)"
  unfolding mask_betas_def Let_def
  by (intro is_KeyError_bind_res is_KeyError_sequence_res is_KeyError_tensor_op2)
    (auto simp: is_KeyError_index_put simp del: index_put.simps)

lemma is_KeyError_mask_gammas: "\<not> is_KeyError (mask_gammas g c)"
proof -
  have "\<not> is_KeyError (if c = ''old-t-shirt'' then tensor_op2 (+) x [[0, 0, 1.5, 0]] else Inr x)"
    for x
    by (simp add: is_KeyError_tensor_op2)
  then show ?thesis
    unfolding mask_gammas_def Let_def
    by (intro is_KeyError_bind_res is_KeyError_sequence_res is_KeyError_tensor_op2)
      (auto simp: is_KeyError_index_put simp del: index_put.simps)
qed

lemma mask_thetas_unknown: "VALID_THETA c = None \<Longrightarrow> mask_thetas t c = Inl (KeyError c)"
  by (simp add: mask_thetas_def)

lemma is_KeyError_mask_inputs:
  "is_KeyError (mask_inputs thetas betas gammas c) \<longleftrightarrow> thetas \<noteq> None \<and> VALID_THETA c = None"
proof (cases "thetas \<noteq> None \<and> VALID_THETA c = None")
  case True
  then show ?thesis
    by (auto simp: mask_inputs_def mask_thetas_unknown)
next
  case False
  have t: "\<not> is_KeyError (case thetas of None \<Rightarrow> Inr None
             | Some t \<Rightarrow> bind_res (mask_thetas t c) (\<lambda>t'. Inr (Some t')))"
    using False by (auto split: option.splits simp: is_KeyError_mask_thetas)
  have b: "\<not> is_KeyError (case betas of None \<Rightarrow> Inr None
             | Some b \<Rightarrow> bind_res (mask_betas b c) (\<lambda>b'. Inr (Some b')))"
    by (auto split: option.splits simp: is_KeyError_mask_betas)
  have g: "\<not> is_KeyError (case gammas of None \<Rightarrow> Inr None
             | Some g \<Rightarrow> bind_res (mask_gammas g c) (\<lambda>g'. Inr (Some g')))"
    by (auto split: option.splits simp: is_KeyError_mask_gammas)
  have "\<not> is_KeyError (mask_inputs thetas betas gammas c)"
    unfolding mask_inputs_def
    by (intro is_KeyError_bind_res t b g) simp
  with False show ?thesis by simp
qed


lemma joint_mask_index_form:
  assumes "length r = 72"
  shows "map2 (*) r (joint_mask valid)
         = map (\<lambda>k. if k div 3 \<in> set valid then r ! k else 0) [0..<72]"
  using assms by (intro nth_equalityI) (simp_all add: length_joint_mask nth_joint_mask)

lemma column_mask_index_form:
  "map2 (*) r (column_mask (length r)) = map (\<lambda>k. if k \<in> {0, 1} then r ! k else 0) [0..<length r]"
  by (intro nth_equalityI) (auto simp: column_mask_def)

lemma map2_mult_idem:
  assumes "\<And>m. m \<in> set ms \<Longrightarrow> m * m = (m::real)"
  shows "map2 (*) (map2 (*) r ms) ms = map2 (*) r ms"
  using assms by (intro nth_equalityI) (simp_all add: mult.assoc)

lemma joint_mask_idem: "m \<in> set (joint_mask valid) \<Longrightarrow> m * m = m"
  by (auto simp: joint_mask_def)

lemma length_column_mask [simp]: "length (column_mask n) = n"
  by (simp add: column_mask_def)

lemma column_mask_idem: "m \<in> set (column_mask n) \<Longrightarrow> m * m = m"
  by (auto simp: column_mask_def)

lemma mask_thetas_twice:
  assumes "\<And>r. r \<in> set thetas \<Longrightarrow> length r = 72" and "VALID_THETA c = Some valid"
  shows "\<exists>t'. mask_thetas thetas c = Inr t' \<and> mask_thetas t' c = Inr t'"
proof -
  let ?t = "map (\<lambda>r. map2 (*) r (joint_mask valid)) thetas"
  have 1: "mask_thetas thetas c = Inr ?t"
    using assms by (rule mask_thetas_joint_mask)
  have "mask_thetas ?t c = Inr (map (\<lambda>r. map2 (*) r (joint_mask valid)) ?t)"
    using assms by (intro mask_thetas_joint_mask) (auto simp: length_joint_mask)
  also have "map (\<lambda>r. map2 (*) r (joint_mask valid)) ?t = ?t"
    by (simp add: comp_def map2_mult_idem joint_mask_idem)
  finally show ?thesis using 1 by simp
qed

lemma mask_betas_twice:
  assumes "\<And>r. r \<in> set betas \<Longrightarrow> 2 \<le> length r"
  shows "\<exists>b'. mask_betas betas c = Inr b' \<and> mask_betas b' c = Inr b'"
proof -
  let ?b = "map (\<lambda>r. map2 (*) r (column_mask (length r))) betas"
  have 1: "mask_betas betas c = Inr ?b"
    using assms by (rule mask_betas_column_mask)
  have "mask_betas ?b c = Inr (map (\<lambda>r. map2 (*) r (column_mask (length r))) ?b)"
    using assms by (intro mask_betas_column_mask) auto
  also have "map (\<lambda>r. map2 (*) r (column_mask (length r))) ?b = ?b"
    by (simp add: comp_def map2_mult_idem column_mask_idem)
  finally show ?thesis using 1 by simp
qed

lemma mask_gammas_twice:
  assumes "\<And>r. r \<in> set gammas \<Longrightarrow> length r = 4"
  shows "\<exists>g'. mask_gammas gammas c = Inr g' \<and> mask_gammas g' c = Inr g'"
proof -
  let ?g = "map (\<lambda>r. [r ! 0, r ! 1, if c = ''old-t-shirt'' then 1.5 else 0, 0]) gammas"
  have 1: "mask_gammas gammas c = Inr ?g"
    using assms by (rule mask_gammas_rows)
  have "mask_gammas ?g c
        = Inr (map (\<lambda>r. [r ! 0, r ! 1, if c = ''old-t-shirt'' then 1.5 else 0, 0]) ?g)"
    by (intro mask_gammas_rows) auto
  also have "map (\<lambda>r. [r ! 0, r ! 1, if c = ''old-t-shirt'' then 1.5 else 0, 0]) ?g = ?g"
    by (simp add: comp_def)
  finally show ?thesis using 1 by simp
qed


section \<open>Lemmas on the networks and the blending\<close>

lemma has_shape2_iff:
  "has_shape2 n w t \<longleftrightarrow> length t = n \<and> (\<forall>i<n. length (t ! i) = w)"
  by (auto simp: has_shape2_def list_all_length)

lemma has_shape3_iff:
  "has_shape3 n v d t \<longleftrightarrow> length t = n \<and> (\<forall>i<n. has_shape2 v d (t ! i))"
  by (auto simp: has_shape3_def list_all_length)

lemma has_shape4_iff:
  "has_shape4 n p v d t \<longleftrightarrow> length t = n \<and> (\<forall>i<n. has_shape3 p v d (t ! i))"
  by (auto simp: has_shape4_def list_all_length)

lemma has_shape2_set: "has_shape2 n w t \<Longrightarrow> r \<in> set t \<Longrightarrow> length r = w"
  by (simp add: has_shape2_def list_all_iff)

lemma has_shape3_set: "has_shape3 n v d t \<Longrightarrow> m \<in> set t \<Longrightarrow> has_shape2 v d m"
  by (simp add: has_shape3_def list_all_iff)

lemma tensor_op2_shape:
  assumes "has_shape2 n w a" and "has_shape2 n w b"
  shows "tensor_op2 g a b = Inr (map2 (map2 g) a b)"
  using assms by (intro tensor_op2_same) (auto simp: has_shape2_iff)

lemma sq_diff_by_index:
  assumes "has_shape2 V 3 rb" and "has_shape2 V 3 bp"
  shows "map (\<lambda>v. sum_list (map (\<lambda>x. x ^ 2) v)) (map2 (map2 (-)) rb bp)
         = map (\<lambda>v. sum_list (map (\<lambda>c. (rb ! v ! c - bp ! v ! c) ^ 2) [0..<3])) [0..<V]"
proof (intro nth_equalityI)
  show "length (map (\<lambda>v. sum_list (map (\<lambda>x. x ^ 2) v)) (map2 (map2 (-)) rb bp))
        = length (map (\<lambda>v. sum_list (map (\<lambda>c. (rb ! v ! c - bp ! v ! c) ^ 2) [0..<3])) [0..<V])"
    using assms by (simp add: has_shape2_iff)
next
  fix v assume "v < length (map (\<lambda>v. sum_list (map (\<lambda>x. x ^ 2) v)) (map2 (map2 (-)) rb bp))"
  then have v: "v < V" using assms by (simp add: has_shape2_iff)
  have l: "length (rb ! v) = 3" "length (bp ! v) = 3"
    using assms v by (simp_all add: has_shape2_iff)
  have "map (\<lambda>x. x ^ 2) (map2 (-) (rb ! v) (bp ! v))
        = map (\<lambda>c. (rb ! v ! c - bp ! v ! c) ^ 2) [0..<3]"
    using l by (intro nth_equalityI) simp_all
  then show "map (\<lambda>v. sum_list (map (\<lambda>x. x ^ 2) v)) (map2 (map2 (-)) rb bp) ! v
        = map (\<lambda>v. sum_list (map (\<lambda>c. (rb ! v ! c - bp ! v ! c) ^ 2) [0..<3])) [0..<V] ! v"
    using v assms by (simp add: has_shape2_iff)
qed

lemma tensor_op4_sub_basis:
  assumes "has_shape3 N V 3 rest" and "has_shape3 P V 3 basis_v"
  shows "tensor_op4 (-) (unsqueeze1 rest) (unsqueeze0 basis_v)
         = Inr (map (\<lambda>rb. map (\<lambda>bp. map2 (map2 (-)) rb bp) basis_v) rest)"
proof -
  have inner: "broadcast (broadcast (scalar_op (-))) rb bp = Inr (map2 (map2 (-)) rb bp)"
    if "rb \<in> set rest" "bp \<in> set basis_v" for rb bp
    using tensor_op2_shape [of V 3 rb bp "(-)"] that assms
    by (simp add: tensor_op2_def has_shape3_set)
  have mid: "broadcast (broadcast (broadcast (scalar_op (-)))) x basis_v
             = Inr (map (\<lambda>bp. map2 (map2 (-)) (hd x) bp) basis_v)"
    if "x \<in> set (unsqueeze1 rest)" for x
  proof -
    from that obtain rb where rb: "rb \<in> set rest" "x = [rb]"
      by (auto simp: unsqueeze1_def)
    show ?thesis
      unfolding rb(2) list.sel
      by (rule broadcast_left [where g = "\<lambda>rb bp. map2 (map2 (-)) rb bp"]) (simp add: inner rb(1))
  qed
  have "broadcast (broadcast (broadcast (broadcast (scalar_op (-))))) (unsqueeze1 rest) [basis_v]
        = Inr (map (\<lambda>x. map (\<lambda>bp. map2 (map2 (-)) (hd x) bp) basis_v) (unsqueeze1 rest))"
    by (rule broadcast_right [where g = "\<lambda>x bs. map (\<lambda>bp. map2 (map2 (-)) (hd x) bp) bs"])
      (rule mid)
  then show ?thesis
    by (simp add: tensor_op4_def unsqueeze0_def unsqueeze1_def comp_def)
qed

lemma interp4_dist_spec:
  assumes r: "has_shape3 N V 3 rest" and b: "has_shape3 P V 3 basis_v"
  shows "interp4_dist rest basis_v
         = Inr (map (\<lambda>b. map (\<lambda>p. spec_dist rest basis_v b p) [0..<P]) [0..<N])"
proof -
  define D :: "tensor2 \<Rightarrow> real"
    where "D = (\<lambda>d. mean (map (\<lambda>v. sum_list (map (\<lambda>x. x ^ 2) v)) d) * 1000)"
  have cell: "D (map2 (map2 (-)) (rest ! i) (basis_v ! p)) = spec_dist rest basis_v i p"
    if "i < N" "p < P" for i p
  proof -
    have s: "has_shape2 V 3 (rest ! i)" "has_shape2 V 3 (basis_v ! p)"
      using r b that by (simp_all add: has_shape3_iff)
    then have len: "length (basis_v ! p) = V" by (simp add: has_shape2_iff)
    have "D (map2 (map2 (-)) (rest ! i) (basis_v ! p))
          = mean (map (\<lambda>v. sum_list (map (\<lambda>c. (rest ! i ! v ! c - basis_v ! p ! v ! c) ^ 2)
                     [0..<3])) [0..<V]) * 1000"
      unfolding D_def by (simp only: sq_diff_by_index [OF s])
    also have "\<dots> = spec_dist rest basis_v i p"
      by (simp add: spec_dist_def mean_def len)
    finally show ?thesis .
  qed
  have "interp4_dist rest basis_v
        = Inr (map (map D) (map (\<lambda>rb. map (\<lambda>bp. map2 (map2 (-)) rb bp) basis_v) rest))"
    unfolding interp4_dist_def tensor_op4_sub_basis [OF r b] D_def by simp
  also have "map (map D) (map (\<lambda>rb. map (\<lambda>bp. map2 (map2 (-)) rb bp) basis_v) rest)
             = map (\<lambda>b. map (\<lambda>p. spec_dist rest basis_v b p) [0..<P]) [0..<N]"
    using r b by (intro nth_equalityI) (simp_all add: has_shape3_iff cell)
  finally show ?thesis .
qed

lemma interp4_weight_rows:
  "interp4_weight sigma dists
   = Inr (map (\<lambda>d. map (\<lambda>x. exp (- x / sigma) / sum_list (map (\<lambda>y. exp (- y / sigma)) d)) d) dists)"
proof -
  let ?w = "map (map (\<lambda>d. exp (- d / sigma))) dists"
  have row: "broadcast (scalar_op (/)) r [s] = Inr (map (\<lambda>x. x / s) r)" for r s
    by (rule broadcast_right [where g = "\<lambda>x y. x / y"]) (simp add: scalar_op_def)
  have "tensor_op2 (/) ?w (map (\<lambda>w. [sum_list w]) ?w)
        = Inr (map2 (\<lambda>r s. map (\<lambda>x. x / hd s) r) ?w (map (\<lambda>w. [sum_list w]) ?w))"
    unfolding tensor_op2_def
    by (rule broadcast_same [where g = "\<lambda>r s. map (\<lambda>x. x / hd s) r"]) (simp_all add: row)
  also have "map2 (\<lambda>r s. map (\<lambda>x. x / hd s) r) ?w (map (\<lambda>w. [sum_list w]) ?w)
      = map (\<lambda>d. map (\<lambda>x. exp (- x / sigma) / sum_list (map (\<lambda>y. exp (- y / sigma)) d)) d) dists"
    by (intro nth_equalityI) (simp_all add: comp_def)
  finally show ?thesis
    by (simp add: interp4_weight_def Let_def)
qed

lemma foldl_add_matrix:
  assumes "has_shape2 V 3 m" and "\<And>x. x \<in> set ms \<Longrightarrow> has_shape2 V 3 x"
  shows "foldl (map2 (map2 (+))) m ms
         = map (\<lambda>v. map (\<lambda>c. m ! v ! c + sum_list (map (\<lambda>x. x ! v ! c) ms)) [0..<3]) [0..<V]"
  using assms
proof (induction ms arbitrary: m)
  case Nil
  have "m = map (\<lambda>v. map (\<lambda>c. m ! v ! c) [0..<3]) [0..<V]"
    using Nil(1) by (intro nth_equalityI) (auto simp: has_shape2_iff intro!: nth_equalityI)
  then show ?case by simp
next
  case (Cons x ms)
  let ?m' = "map2 (map2 (+)) m x"
  have x: "has_shape2 V 3 x" using Cons.prems(2) by simp
  have m': "has_shape2 V 3 ?m'"
    using Cons.prems(1) x by (simp add: has_shape2_iff)
  have nth: "?m' ! v ! c = m ! v ! c + x ! v ! c" if "v < V" "c < 3" for v c
    using Cons.prems(1) x that by (simp add: has_shape2_iff)
  have "foldl (map2 (map2 (+))) ?m' ms
        = map (\<lambda>v. map (\<lambda>c. ?m' ! v ! c + sum_list (map (\<lambda>x. x ! v ! c) ms)) [0..<3]) [0..<V]"
    using m' Cons.prems(2) by (intro Cons.IH) simp_all
  also have "\<dots> = map (\<lambda>v. map (\<lambda>c. m ! v ! c + sum_list (map (\<lambda>x. x ! v ! c) (x # ms))) [0..<3]) [0..<V]"
    by (intro map_cong refl) (simp add: nth add.assoc)
  finally show ?case by simp
qed

lemma sum_dim0_by_index:
  assumes "ms \<noteq> []" and "\<And>x. x \<in> set ms \<Longrightarrow> has_shape2 V 3 x"
  shows "sum_dim0 ms
         = map (\<lambda>v. map (\<lambda>c. sum_list (map (\<lambda>x. x ! v ! c) ms)) [0..<3]) [0..<V]"
proof -
  from assms(1) obtain m rest where ms: "ms = m # rest" by (cases ms) auto
  show ?thesis
    using foldl_add_matrix [of V m rest] assms(2)
    by (simp add: ms sum_dim0_def)
qed

lemma tensor_op4_mul_weight:
  assumes p: "has_shape4 N P V 3 pivot" and w: "has_shape2 N P weight"
  shows "tensor_op4 (*) pivot (map (map (\<lambda>w. [[w]])) weight)
         = Inr (map2 (map2 (\<lambda>pv w. map (map (\<lambda>x. x * w)) pv)) pivot weight)"
proof -
  have row: "broadcast (scalar_op (*)) r [w] = Inr (map (\<lambda>x. x * w) r)" for r w
    by (rule broadcast_right [where g = "\<lambda>x w. x * w"]) (simp add: scalar_op_def)
  have mat: "broadcast (broadcast (scalar_op (*))) pv [[w]] = Inr (map (map (\<lambda>x. x * w)) pv)"
    for pv w
    using broadcast_right [where f = "broadcast (scalar_op (*))" and xs = pv and y = "[w]"
        and g = "\<lambda>r y. map (\<lambda>x. x * hd y) r"]
    by (simp add: row)
  have piv: "broadcast (broadcast (broadcast (scalar_op (*)))) (pivot ! b)
               (map (map (\<lambda>w. [[w]])) weight ! b)
             = Inr (map2 (\<lambda>pv w. map (map (\<lambda>x. x * w)) pv) (pivot ! b) (weight ! b))"
    if "b < N" for b
  proof -
    have l: "length (pivot ! b) = P" "length (weight ! b) = P" "length weight = N"
      using p w that by (simp_all add: has_shape4_iff has_shape3_iff has_shape2_iff)
    have "broadcast (broadcast (broadcast (scalar_op (*)))) (pivot ! b) (map (\<lambda>w. [[w]]) (weight ! b))
          = Inr (map2 (\<lambda>pv y. map (map (\<lambda>x. x * hd (hd y))) pv) (pivot ! b)
                   (map (\<lambda>w. [[w]]) (weight ! b)))"
      by (rule broadcast_same [where g = "\<lambda>pv y. map (map (\<lambda>x. x * hd (hd y))) pv"])
        (simp_all add: l mat)
    also have "map2 (\<lambda>pv y. map (map (\<lambda>x. x * hd (hd y))) pv) (pivot ! b)
                   (map (\<lambda>w. [[w]]) (weight ! b))
               = map2 (\<lambda>pv w. map (map (\<lambda>x. x * w)) pv) (pivot ! b) (weight ! b)"
      using l by (intro nth_equalityI) simp_all
    finally show ?thesis using that l by simp
  qed
  have l: "length pivot = N" "length weight = N"
    using p w by (simp_all add: has_shape4_iff has_shape2_iff)
  have "broadcast (broadcast (broadcast (broadcast (scalar_op (*))))) pivot
          (map (map (\<lambda>w. [[w]])) weight)
        = Inr (map2 (\<lambda>pb wb. map2 (\<lambda>pv w. map (map (\<lambda>x. x * hd (hd w))) pv) pb wb) pivot
                 (map (map (\<lambda>w. [[w]])) weight))"
  proof (rule broadcast_same
      [where g = "\<lambda>pb wb. map2 (\<lambda>pv w. map (map (\<lambda>x. x * hd (hd w))) pv) pb wb"])
    show "length pivot = length (map (map (\<lambda>w. [[w]])) weight)"
      using l by simp
  next
    fix b assume "b < length pivot"
    then have b: "b < N" using l by simp
    have lb: "length (pivot ! b) = P" "length (weight ! b) = P"
      using p w b by (simp_all add: has_shape4_iff has_shape3_iff has_shape2_iff)
    have "map2 (\<lambda>pv w. map (map (\<lambda>x. x * hd (hd w))) pv) (pivot ! b)
            (map (\<lambda>w. [[w]]) (weight ! b))
          = map2 (\<lambda>pv w. map (map (\<lambda>x. x * w)) pv) (pivot ! b) (weight ! b)"
      using lb by (intro nth_equalityI) simp_all
    then show "broadcast (broadcast (broadcast (scalar_op (*)))) (pivot ! b)
                 (map (map (\<lambda>w. [[w]])) weight ! b)
               = Inr (map2 (\<lambda>pv w. map (map (\<lambda>x. x * hd (hd w))) pv) (pivot ! b)
                        (map (map (\<lambda>w. [[w]])) weight ! b))"
      using piv [OF b] b l by simp
  qed
  also have "map2 (\<lambda>pb wb. map2 (\<lambda>pv w. map (map (\<lambda>x. x * hd (hd w))) pv) pb wb) pivot
                 (map (map (\<lambda>w. [[w]])) weight)
             = map2 (map2 (\<lambda>pv w. map (map (\<lambda>x. x * w)) pv)) pivot weight"
  proof (rule nth_equalityI)
    fix b assume "b < length (map2 (\<lambda>pb wb. map2 (\<lambda>pv w. map (map (\<lambda>x. x * hd (hd w))) pv) pb wb)
                 pivot (map (map (\<lambda>w. [[w]])) weight))"
    then have b: "b < N" using l by simp
    have lb: "length (pivot ! b) = P" "length (weight ! b) = P"
      using p w b by (simp_all add: has_shape4_iff has_shape3_iff has_shape2_iff)
    have "map2 (\<lambda>pv w. map (map (\<lambda>x. x * hd (hd w))) pv) (pivot ! b)
            (map (\<lambda>w. [[w]]) (weight ! b))
          = map2 (\<lambda>pv w. map (map (\<lambda>x. x * w)) pv) (pivot ! b) (weight ! b)"
      using lb by (intro nth_equalityI) simp_all
    then show "map2 (\<lambda>pb wb. map2 (\<lambda>pv w. map (map (\<lambda>x. x * hd (hd w))) pv) pb wb) pivot
                 (map (map (\<lambda>w. [[w]])) weight) ! b
               = map2 (map2 (\<lambda>pv w. map (map (\<lambda>x. x * w)) pv)) pivot weight ! b"
      using b l by simp
  qed (simp add: l)
  finally show ?thesis
    by (simp add: tensor_op4_def)
qed

lemma interp4_blend_by_index:
  assumes p: "has_shape4 N P V 3 pivot" and w: "has_shape2 N P weight" and P: "0 < P"
  shows "interp4_blend pivot weight
         = Inr (map (\<lambda>b. map (\<lambda>v. map (\<lambda>c.
                  sum_list (map (\<lambda>p. pivot ! b ! p ! v ! c * (weight ! b ! p)) [0..<P]))
                  [0..<3]) [0..<V]) [0..<N])"
proof -
  let ?scaled = "map2 (map2 (\<lambda>pv w. map (map (\<lambda>x. x * w)) pv)) pivot weight"
  have l: "length pivot = N" "length weight = N"
    using p w by (simp_all add: has_shape4_iff has_shape2_iff)
  have row: "sum_dim0 (?scaled ! b)
             = map (\<lambda>v. map (\<lambda>c. sum_list (map (\<lambda>p. pivot ! b ! p ! v ! c * (weight ! b ! p))
                      [0..<P])) [0..<3]) [0..<V]"
    if b: "b < N" for b
  proof -
    let ?ms = "map2 (\<lambda>pv w. map (map (\<lambda>x. x * w)) pv) (pivot ! b) (weight ! b)"
    have lb: "length (pivot ! b) = P" "length (weight ! b) = P"
      using p w b by (simp_all add: has_shape4_iff has_shape3_iff has_shape2_iff)
    have sh: "has_shape2 V 3 (pivot ! b ! q)" if "q < P" for q
      using p b that by (simp add: has_shape4_iff has_shape3_iff)
    have ne: "?ms \<noteq> []"
      using lb P by (cases "pivot ! b"; cases "weight ! b") auto
    have shs: "has_shape2 V 3 x" if "x \<in> set ?ms" for x
    proof -
      from that obtain q where q: "q < P" "x = ?ms ! q"
        using lb by (auto simp: in_set_conv_nth)
      then have "x = map (map (\<lambda>x. x * (weight ! b ! q))) (pivot ! b ! q)"
        using lb by simp
      with sh [OF q(1)] show ?thesis
        by (simp add: has_shape2_iff)
    qed
    have "sum_dim0 ?ms = map (\<lambda>v. map (\<lambda>c. sum_list (map (\<lambda>x. x ! v ! c) ?ms)) [0..<3]) [0..<V]"
      using ne shs by (rule sum_dim0_by_index)
    also have "\<dots> = map (\<lambda>v. map (\<lambda>c. sum_list (map (\<lambda>p. pivot ! b ! p ! v ! c * (weight ! b ! p))
                      [0..<P])) [0..<3]) [0..<V]"
    proof (intro map_cong refl arg_cong [where f = sum_list])
      fix v c assume "v \<in> set [0..<V]" "c \<in> set [0..<3]"
      then have vc: "v < V" "c < 3" by simp_all
      show "map (\<lambda>x. x ! v ! c) ?ms = map (\<lambda>p. pivot ! b ! p ! v ! c * (weight ! b ! p)) [0..<P]"
      proof (rule nth_equalityI)
        fix q assume "q < length (map (\<lambda>x. x ! v ! c) ?ms)"
        then have q: "q < P" using lb by simp
        have "length (pivot ! b ! q) = V" "length (pivot ! b ! q ! v) = 3"
          using sh [OF q] vc by (simp_all add: has_shape2_iff)
        then show "map (\<lambda>x. x ! v ! c) ?ms ! q
                   = map (\<lambda>p. pivot ! b ! p ! v ! c * (weight ! b ! p)) [0..<P] ! q"
          using q lb vc by simp
      qed (simp add: lb)
    qed
    finally show ?thesis using b l by simp
  qed
  have "interp4_blend pivot weight = Inr (map sum_dim0 ?scaled)"
    by (simp add: interp4_blend_def tensor_op4_mul_weight [OF p w])
  also have "map sum_dim0 ?scaled
             = map (\<lambda>b. map (\<lambda>v. map (\<lambda>c.
                  sum_list (map (\<lambda>p. pivot ! b ! p ! v ! c * (weight ! b ! p)) [0..<P]))
                  [0..<3]) [0..<V]) [0..<N]"
  proof (rule nth_equalityI)
    fix b assume "b < length (map sum_dim0 ?scaled)"
    then have b: "b < N" using l by simp
    show "map sum_dim0 ?scaled ! b
          = map (\<lambda>b. map (\<lambda>v. map (\<lambda>c.
                  sum_list (map (\<lambda>p. pivot ! b ! p ! v ! c * (weight ! b ! p)) [0..<P]))
                  [0..<3]) [0..<V]) [0..<N] ! b"
      using row [OF b] b l by simp
  qed (simp add: l)
  finally show ?thesis .
qed

lemma linear_forward_shape:
  assumes "linear_ok l" and "in_features l = n" and "has_shape2 N n x"
  shows "\<exists>y. linear_forward l x = Inr y \<and> has_shape2 N (out_features l) y"
  using assms
  by (auto simp: linear_forward_def linear_ok_def has_shape2_def list_all_iff)

lemma Sequential_forward_shape:
  "mlp_out ms n = Some m \<Longrightarrow> has_shape2 N n x
   \<Longrightarrow> \<exists>y. Sequential_forward ms x = Inr y \<and> has_shape2 N m y"
proof (induction ms n arbitrary: x rule: mlp_out.induct)
  case (1 n)
  then show ?case by simp
next
  case (2 l ms n)
  from "2.prems" have ok: "linear_ok l" "in_features l = n"
    and out: "mlp_out ms (out_features l) = Some m"
    by (simp_all split: if_splits)
  from linear_forward_shape [OF ok "2.prems"(2)] obtain y
    where y: "linear_forward l x = Inr y" "has_shape2 N (out_features l) y" by blast
  from "2.IH" [OF _ out y(2)] ok obtain z
    where "Sequential_forward ms y = Inr z" "has_shape2 N m z" by blast
  with y show ?case by simp
next
  case (3 ms n)
  have "has_shape2 N n (map (map (max 0)) x)"
    using "3.prems"(2) by (simp add: has_shape2_iff)
  from "3.IH" [OF _ this] "3.prems"(1) show ?case by simp
next
  case (4 p ms n)
  from "4.IH" [OF _ "4.prems"(2)] "4.prems"(1) show ?case by simp
qed

lemma mask_thetas_shape:
  assumes "has_shape2 N 72 thetas" and "VALID_THETA c \<noteq> None"
  shows "\<exists>t. mask_thetas thetas c = Inr t \<and> has_shape2 N 72 t"
proof -
  from assms(2) obtain valid where v: "VALID_THETA c = Some valid" by auto
  have "mask_thetas thetas c = Inr (map (\<lambda>r. map2 (*) r (joint_mask valid)) thetas)"
    using assms(1) v by (intro mask_thetas_joint_mask) (auto simp: has_shape2_set)
  moreover have "has_shape2 N 72 (map (\<lambda>r. map2 (*) r (joint_mask valid)) thetas)"
    using assms(1) by (simp add: has_shape2_iff length_joint_mask)
  ultimately show ?thesis by blast
qed

lemma mask_betas_shape:
  assumes "has_shape2 N 10 betas"
  shows "\<exists>b. mask_betas betas c = Inr b \<and> has_shape2 N 10 b"
proof -
  have "mask_betas betas c = Inr (map (\<lambda>r. map2 (*) r (column_mask (length r))) betas)"
    using assms by (intro mask_betas_column_mask) (auto dest: has_shape2_set)
  moreover have "has_shape2 N 10 (map (\<lambda>r. map2 (*) r (column_mask (length r))) betas)"
    using assms by (simp add: has_shape2_iff)
  ultimately show ?thesis by blast
qed

lemma mask_gammas_shape:
  assumes "has_shape2 N 4 gammas"
  shows "\<exists>g. mask_gammas gammas c = Inr g \<and> has_shape2 N 4 g"
proof -
  have "mask_gammas gammas c
        = Inr (map (\<lambda>r. [r ! 0, r ! 1, if c = ''old-t-shirt'' then 1.5 else 0, 0]) gammas)"
    using assms by (intro mask_gammas_rows) (auto dest: has_shape2_set)
  moreover have "has_shape2 N 4
      (map (\<lambda>r. [r ! 0, r ! 1, if c = ''old-t-shirt'' then 1.5 else 0, 0]) gammas)"
    using assms by (simp add: has_shape2_iff)
  ultimately show ?thesis by blast
qed

lemma cat1_two_shape:
  assumes "has_shape2 N a x" and "has_shape2 N b y"
  shows "\<exists>z. cat1 [x, y] = Inr z \<and> has_shape2 N (a + b) z"
  using assms by (auto simp: cat1_def has_shape2_iff)

lemma cat1_three_shape:
  assumes "has_shape2 N a x" and "has_shape2 N b y" and "has_shape2 N c z"
  shows "\<exists>u. cat1 [x, y, z] = Inr u \<and> has_shape2 N (a + b + c) u"
  using assms by (auto simp: cat1_def has_shape2_iff)

lemma rows_of_shape:
  assumes "length r = v * d"
  shows "has_shape2 v d (rows_of v d r)"
proof -
  have "min (v * d - i * d) d = d" if "i < v" for i
  proof -
    from that have "Suc i \<le> v" by simp
    then have "Suc i * d \<le> v * d" by (rule mult_le_mono1)
    then show ?thesis by simp
  qed
  then show ?thesis
    using assms by (simp add: has_shape2_iff rows_of_def)
qed

lemma view_infer1_3_shape:
  assumes y: "has_shape2 N (3 * V) y" and N: "0 < N"
  shows "view_infer1_3 N 3 y = Inr (map (rows_of V 3) y)
         \<and> has_shape3 N V 3 (map (rows_of V 3) y)"
proof -
  have len: "length y = N" and rows: "\<And>r. r \<in> set y \<Longrightarrow> length r = V * 3"
    using y by (auto simp: has_shape2_def list_all_iff)
  have flat: "length (concat y) = N * (V * 3)"
    using length_concat_uniform [of y "V * 3"] rows len by simp
  have "N * (V * 3) = V * (N * 3)" by simp
  then have dv: "length (concat y) div (N * 3) = V" "length (concat y) mod (N * 3) = 0"
    using N flat by simp_all
  have undo: "rows_of N (V * 3) (concat y) = y"
    using rows_of_concat [of y "V * 3"] rows len by simp
  have "view_infer1_3 N 3 y = Inr (map (rows_of V 3) y)"
    using N by (simp add: view_infer1_3_def Let_def dv undo)
  moreover have "has_shape3 N V 3 (map (rows_of V 3) y)"
    using len rows by (simp add: has_shape3_def list_all_iff rows_of_shape)
  ultimately show ?thesis by blast
qed

lemma TailorNetSS2G_forward_shape:
  assumes "mlp_out (ss2g_mlp m) 14 = Some w"
    and "has_shape2 N 10 betas" and "has_shape2 N 4 gammas"
  shows "\<exists>y. TailorNetSS2G_forward m th (Some betas) (Some gammas) = Inr y \<and> has_shape2 N w y"
proof -
  from mask_betas_shape [OF assms(2)] obtain b
    where b: "mask_betas betas (ss2g_cloth_type m) = Inr b" "has_shape2 N 10 b" by blast
  from mask_gammas_shape [OF assms(3)] obtain g
    where g: "mask_gammas gammas (ss2g_cloth_type m) = Inr g" "has_shape2 N 4 g" by blast
  from cat1_two_shape [OF b(2) g(2)] obtain x
    where x: "cat1 [b, g] = Inr x" "has_shape2 N 14 x" by auto
  from Sequential_forward_shape [OF assms(1) x(2)] obtain y
    where "Sequential_forward (ss2g_mlp m) x = Inr y" "has_shape2 N w y" by blast
  then show ?thesis
    using b g x by (simp add: TailorNetSS2G_forward_def mask_inputs_def)
qed

lemma TailorNetHF_forward_shape:
  assumes "mlp_out (hf_mlp m) 72 = Some w" and "VALID_THETA (hf_cloth_type m) \<noteq> None"
    and "has_shape2 N 72 thetas"
  shows "\<exists>y. TailorNetHF_forward m thetas b g = Inr y \<and> has_shape2 N w y"
proof -
  from mask_thetas_shape [OF assms(3) assms(2)] obtain t
    where t: "mask_thetas thetas (hf_cloth_type m) = Inr t" "has_shape2 N 72 t" by blast
  from Sequential_forward_shape [OF assms(1) t(2)] obtain y
    where "Sequential_forward (hf_mlp m) t = Inr y" "has_shape2 N w y" by blast
  then show ?thesis
    using t by (simp add: TailorNetHF_forward_def)
qed

lemma TailorNetLF_forward_shape:
  assumes "mlp_out (lf_mlp m) 86 = Some w" and "VALID_THETA (lf_cloth_type m) \<noteq> None"
    and "has_shape2 N 72 thetas" and "has_shape2 N 10 betas" and "has_shape2 N 4 gammas"
  shows "\<exists>y. TailorNetLF_forward m thetas betas gammas = Inr y \<and> has_shape2 N w y"
proof -
  from mask_thetas_shape [OF assms(3) assms(2)] obtain t
    where t: "mask_thetas thetas (lf_cloth_type m) = Inr t" "has_shape2 N 72 t" by blast
  from mask_betas_shape [OF assms(4)] obtain b
    where b: "mask_betas betas (lf_cloth_type m) = Inr b" "has_shape2 N 10 b" by blast
  from mask_gammas_shape [OF assms(5)] obtain g
    where g: "mask_gammas gammas (lf_cloth_type m) = Inr g" "has_shape2 N 4 g" by blast
  from cat1_three_shape [OF t(2) b(2) g(2)] obtain x
    where x: "cat1 [t, b, g] = Inr x" "has_shape2 N 86 x" by auto
  from Sequential_forward_shape [OF assms(1) x(2)] obtain y
    where "Sequential_forward (lf_mlp m) x = Inr y" "has_shape2 N w y" by blast
  then show ?thesis
    using t b g x by (simp add: TailorNetLF_forward_def mask_inputs_def)
qed

lemma sum_list_divide: "sum_list (map (\<lambda>x. x / (s::real)) ws) = sum_list ws / s"
  by (induction ws) (simp_all add: add_divide_distrib)

lemma interp4_weight_shape:
  "has_shape2 N P dists \<Longrightarrow>
   has_shape2 N P (map (\<lambda>d. map (\<lambda>x. exp (- x / sigma) / sum_list (map (\<lambda>y. exp (- y / sigma)) d)) d) dists)"
  by (simp add: has_shape2_iff)

lemma interp4_spec:
  assumes N: "0 < N" and P: "0 < P"
    and bs: "has_shape3 P V 3 (basis net)"
    and ss: "mlp_out (ss2g_mlp (tailornet_ss2g net)) 14 = Some (3 * V)"
    and b: "has_shape2 N 10 betas" and g: "has_shape2 N 4 gammas"
    and pv: "has_shape4 N P V 3 pred_disp_pivot"
  shows "\<exists>rest_verts.
     bind_res (TailorNetSS2G_forward (tailornet_ss2g net) None (Some betas) (Some gammas))
       (view_infer1_3 N 3) = Inr rest_verts
   \<and> has_shape3 N V 3 rest_verts
   \<and> interp4_dist rest_verts (basis net)
       = Inr (map (\<lambda>b. map (spec_dist rest_verts (basis net) b) [0..<P]) [0..<N])
   \<and> interp4 net thetas betas gammas pred_disp_pivot sigma
       = Inr (map (\<lambda>b. map (\<lambda>v. map (\<lambda>c.
                 spec_blend sigma rest_verts (basis net) pred_disp_pivot b v c)
                 [0..<3]) [0..<V]) [0..<N])"
proof -
  from TailorNetSS2G_forward_shape [OF ss b g] obtain y
    where y: "TailorNetSS2G_forward (tailornet_ss2g net) None (Some betas) (Some gammas) = Inr y"
      "has_shape2 N (3 * V) y" by blast
  define rest where "rest = map (rows_of V 3) y"
  have v: "view_infer1_3 N 3 y = Inr rest" and rs: "has_shape3 N V 3 rest"
    using view_infer1_3_shape [OF y(2) N] by (simp_all add: rest_def)
  define dists where "dists = map (\<lambda>b. map (spec_dist rest (basis net) b) [0..<P]) [0..<N]"
  have d: "interp4_dist rest (basis net) = Inr dists"
    unfolding dists_def using rs bs by (rule interp4_dist_spec)
  have dsh: "has_shape2 N P dists"
    by (simp add: dists_def has_shape2_iff)
  define weight where "weight = map (\<lambda>d. map (\<lambda>x. exp (- x / sigma)
      / sum_list (map (\<lambda>y. exp (- y / sigma)) d)) d) dists"
  have w: "interp4_weight sigma dists = Inr weight"
    unfolding weight_def by (rule interp4_weight_rows)
  have wsh: "has_shape2 N P weight"
    unfolding weight_def using dsh by (rule interp4_weight_shape)
  have wnth: "weight ! i ! p = spec_weight sigma rest (basis net) i p
                / sum_list (map (spec_weight sigma rest (basis net) i) [0..<P])"
    if "i < N" "p < P" for i p
  proof -
    have sw: "spec_weight sigma rest (basis net) i
              = (\<lambda>p. exp (- spec_dist rest (basis net) i p / sigma))"
      by (rule ext) (simp add: spec_weight_def)
    show ?thesis
      using that by (simp add: weight_def dists_def sw comp_def)
  qed
  have lb: "length (basis net) = P"
    using bs by (simp add: has_shape3_iff)
  have "interp4_blend pred_disp_pivot weight
         = Inr (map (\<lambda>b. map (\<lambda>v. map (\<lambda>c.
                  sum_list (map (\<lambda>p. pred_disp_pivot ! b ! p ! v ! c * (weight ! b ! p)) [0..<P]))
                  [0..<3]) [0..<V]) [0..<N])"
    using pv wsh P by (rule interp4_blend_by_index)
  also have "map (\<lambda>b. map (\<lambda>v. map (\<lambda>c.
                  sum_list (map (\<lambda>p. pred_disp_pivot ! b ! p ! v ! c * (weight ! b ! p)) [0..<P]))
                  [0..<3]) [0..<V]) [0..<N]
      = map (\<lambda>b. map (\<lambda>v. map (\<lambda>c. spec_blend sigma rest (basis net) pred_disp_pivot b v c)
                 [0..<3]) [0..<V]) [0..<N]"
    unfolding spec_blend_def Let_def lb
    by (intro map_cong refl arg_cong [where f = sum_list]) (simp add: wnth)
  finally have bl: "interp4_blend pred_disp_pivot weight
      = Inr (map (\<lambda>b. map (\<lambda>v. map (\<lambda>c. spec_blend sigma rest (basis net) pred_disp_pivot b v c)
                 [0..<3]) [0..<V]) [0..<N])" .
  have len: "length pred_disp_pivot = N"
    using pv by (simp add: has_shape4_iff)
  have "interp4 net thetas betas gammas pred_disp_pivot sigma
      = Inr (map (\<lambda>b. map (\<lambda>v. map (\<lambda>c. spec_blend sigma rest (basis net) pred_disp_pivot b v c)
                 [0..<3]) [0..<V]) [0..<N])"
    by (simp add: interp4_def Let_def len y(1) v d w bl)
  with y(1) v rs d show ?thesis
    unfolding dists_def by auto
qed

lemma mlp_out_append:
  "mlp_out (xs @ ys) n = (case mlp_out xs n of None \<Rightarrow> None | Some w \<Rightarrow> mlp_out ys w)"
  by (induction xs n rule: mlp_out.induct) simp_all

lemma mlp_out_hidden:
  assumes "\<And>i. linear_ok (mk i h h) \<and> in_features (mk i h h) = h \<and> out_features (mk i h h) = h"
  shows "mlp_out (concat (map (\<lambda>i. [Linear (mk (Suc i) h h), ReLU]) js)) h = Some h"
  by (induction js) (simp_all add: assms)

lemma mlp_out_FullyConnected:
  assumes "\<And>i a b. linear_ok (mk i a b) \<and> in_features (mk i a b) = a \<and> out_features (mk i a b) = b"
  shows "mlp_out (FullyConnected mk n m h k) n = Some m"
  unfolding FullyConnected_def
  by (simp add: mlp_out_append assms mlp_out_hidden [of mk h, OF assms])

lemma example_mk_ok:
  "linear_ok (example_mk i a b) \<and> in_features (example_mk i a b) = a
   \<and> out_features (example_mk i a b) = b"
  by (simp add: example_mk_def linear_ok_def list_all_iff)

lemma mlp_out_example:
  "mlp_out (FullyConnected example_mk n m h k) n = Some m"
  by (rule mlp_out_FullyConnected) (rule example_mk_ok)

lemma valid_example_net: "valid_net example_net 2 2"
  by (simp add: valid_net_def example_net_def example_hf_def TailorNetLF_init_def TailorNetHF_init_def
      TailorNetSS2G_init_def mlp_out_example has_shape3_def has_shape2_def VALID_THETA_def)

section \<open>Lemmas on the predictor\<close>

lemma map_Inr_exists:
  "(\<And>x. x \<in> set xs \<Longrightarrow> \<exists>y. f x = Inr y \<and> Q y)
   \<Longrightarrow> \<exists>ys. map f xs = map Inr ys \<and> length ys = length xs \<and> (\<forall>y\<in>set ys. Q y)"
proof (induction xs)
  case Nil
  then show ?case by simp
next
  case (Cons x xs)
  from Cons.prems [of x] obtain y where y: "f x = Inr y" "Q y" by auto
  from Cons.IH Cons.prems obtain ys
    where "map f xs = map Inr ys" "length ys = length xs" "\<forall>y\<in>set ys. Q y" by auto
  with y have "map f (x # xs) = map Inr (y # ys) \<and> length (y # ys) = length (x # xs)
               \<and> (\<forall>z\<in>set (y # ys). Q z)" by simp
  then show ?case by blast
qed

lemma has_shape3_skeleton:
  "has_shape3 N V D u \<Longrightarrow> map (map length) u = replicate N (replicate V D)"
  by (auto simp: has_shape3_iff has_shape2_iff intro!: nth_equalityI)

lemma stack_same_shape:
  assumes "ts \<noteq> []" and "\<And>u. u \<in> set ts \<Longrightarrow> has_shape3 N V D u"
  shows "stack ts = Inr ts"
proof -
  from assms(1) obtain t rest where ts: "ts = t # rest" by (cases ts) auto
  have "map (map length) u = map (map length) t" if "u \<in> set rest" for u
    using assms(2) [of u] assms(2) [of t] that by (simp add: ts has_shape3_skeleton)
  then show ?thesis
    by (simp add: stack_def ts list_all_iff)
qed

lemma transpose01_shape:
  assumes "ts \<noteq> []" and "length ts = P" and "\<And>u. u \<in> set ts \<Longrightarrow> has_shape3 N V D u"
  shows "has_shape4 N P V D (transpose01 ts)"
    and "\<And>b p. b < N \<Longrightarrow> p < P \<Longrightarrow> transpose01 ts ! b ! p = ts ! p ! b"
proof -
  from assms(1) obtain t rest where ts: "ts = t # rest" by (cases ts) auto
  have lt: "length t = N" using assms(3) [of t] by (simp add: ts has_shape3_iff)
  have tr: "transpose01 ts = map (\<lambda>i. map (\<lambda>u. u ! i) ts) [0..<N]"
    by (simp add: transpose01_def ts lt)
  have el: "has_shape2 V D (u ! i)" if "u \<in> set ts" "i < N" for u i
    using assms(3) [OF that(1)] that(2) by (simp add: has_shape3_iff)
  show "has_shape4 N P V D (transpose01 ts)"
    unfolding tr using assms(2) el
    by (simp add: has_shape4_iff has_shape3_def list_all_iff)
  show "\<And>b p. b < N \<Longrightarrow> p < P \<Longrightarrow> transpose01 ts ! b ! p = ts ! p ! b"
    unfolding tr using assms(2) by simp
qed

lemma tensor_op3_shape:
  assumes "has_shape3 N V D a" and "has_shape3 N V D b"
  shows "tensor_op3 g a b = Inr (map2 (map2 (map2 g)) a b)"
    and "has_shape3 N V D (map2 (map2 (map2 g)) a b)"
proof -
  have l: "length a = N" "length b = N"
    using assms by (simp_all add: has_shape3_iff)
  have el: "has_shape2 V D (a ! i)" "has_shape2 V D (b ! i)" if "i < N" for i
    using assms that by (simp_all add: has_shape3_iff)
  have inner: "broadcast (broadcast (scalar_op g)) (a ! i) (b ! i)
               = Inr (map2 (map2 g) (a ! i) (b ! i))" if "i < N" for i
    using tensor_op2_shape [OF el [OF that], of g] by (simp add: tensor_op2_def)
  show "tensor_op3 g a b = Inr (map2 (map2 (map2 g)) a b)"
    unfolding tensor_op3_def
    by (rule broadcast_same [where g = "map2 (map2 g)"]) (simp_all add: l inner)
  show "has_shape3 N V D (map2 (map2 (map2 g)) a b)"
    using l el by (simp add: has_shape3_iff has_shape2_iff)
qed

lemma blend_result_shape:
  "has_shape3 N V 3 (map (\<lambda>b. map (\<lambda>v. map (\<lambda>c. f b v c) [0..<3]) [0..<V]) [0..<N])"
  by (simp add: has_shape3_iff has_shape2_iff)

lemma forward_valid:
  assumes net: "valid_net net P V" and inp: "valid_input N thetas betas gammas"
  shows "\<exists>hf lf blended.
      map (\<lambda>h. bind_res (TailorNetHF_forward h thetas (Some betas) (Some gammas))
                  (view_infer1_3 N 3)) (tailornet_hfs net) = map Inr hf
    \<and> has_shape4 N P V 3 (transpose01 hf)
    \<and> (\<forall>b<N. \<forall>p<P. transpose01 hf ! b ! p = hf ! p ! b)
    \<and> interp4 net thetas betas gammas (transpose01 hf) (kernel_sigma net) = Inr blended
    \<and> bind_res (TailorNetLF_forward (tailornet_lf net) thetas betas gammas)
         (view_infer1_3 N 3) = Inr lf
    \<and> forward net betas thetas gammas = Inr (map2 (map2 (map2 (+))) lf blended)
    \<and> has_shape3 N V 3 (map2 (map2 (map2 (+))) lf blended)"
proof -
  from inp have N: "0 < N" and t: "has_shape2 N 72 thetas" and b: "has_shape2 N 10 betas"
    and g: "has_shape2 N 4 gammas"
    by (simp_all add: valid_input_def)
  from net have P: "0 < P" and bs: "has_shape3 P V 3 (basis net)"
    and lh: "length (tailornet_hfs net) = P"
    and hfs: "\<And>h. h \<in> set (tailornet_hfs net) \<Longrightarrow>
                mlp_out (hf_mlp h) 72 = Some (3 * V) \<and> VALID_THETA (hf_cloth_type h) \<noteq> None"
    and lf: "mlp_out (lf_mlp (tailornet_lf net)) 86 = Some (3 * V)"
      "VALID_THETA (lf_cloth_type (tailornet_lf net)) \<noteq> None"
    and ss: "mlp_out (ss2g_mlp (tailornet_ss2g net)) 14 = Some (3 * V)"
    by (simp_all add: valid_net_def list_all_iff)
  let ?run = "\<lambda>h. bind_res (TailorNetHF_forward h thetas (Some betas) (Some gammas))
                      (view_infer1_3 N 3)"
  have one: "\<exists>y. ?run h = Inr y \<and> has_shape3 N V 3 y" if "h \<in> set (tailornet_hfs net)" for h
  proof -
    from hfs [OF that] TailorNetHF_forward_shape [of h "3 * V" N thetas "Some betas" "Some gammas"] t
    obtain y where y: "TailorNetHF_forward h thetas (Some betas) (Some gammas) = Inr y"
      "has_shape2 N (3 * V) y" by blast
    with view_infer1_3_shape [OF y(2) N] show ?thesis by simp
  qed
  from map_Inr_exists [of "tailornet_hfs net" ?run "has_shape3 N V 3", OF one] obtain hf
    where hf: "map ?run (tailornet_hfs net) = map Inr hf" "length hf = P"
      "\<And>u. u \<in> set hf \<Longrightarrow> has_shape3 N V 3 u"
    using lh by auto
  have ne: "hf \<noteq> []" using hf(2) P by auto
  have seq: "sequence_res (map ?run (tailornet_hfs net)) = Inr hf"
    by (simp only: hf(1) sequence_res_map_Inr_id)
  have st: "stack hf = Inr hf"
    using ne hf(3) by (rule stack_same_shape)
  have pv: "has_shape4 N P V 3 (transpose01 hf)"
    and pn: "\<And>b p. b < N \<Longrightarrow> p < P \<Longrightarrow> transpose01 hf ! b ! p = hf ! p ! b"
    using transpose01_shape [OF ne hf(2) hf(3)] by blast+
  from interp4_spec [OF N P bs ss b g pv, of thetas "kernel_sigma net"] obtain rest
    where i4: "interp4 net thetas betas gammas (transpose01 hf) (kernel_sigma net)
       = Inr (map (\<lambda>b. map (\<lambda>v. map (\<lambda>c.
                 spec_blend (kernel_sigma net) rest (basis net) (transpose01 hf) b v c)
                 [0..<3]) [0..<V]) [0..<N])"
    by blast
  define blended where "blended = map (\<lambda>b. map (\<lambda>v. map (\<lambda>c.
                 spec_blend (kernel_sigma net) rest (basis net) (transpose01 hf) b v c)
                 [0..<3]) [0..<V]) [0..<N]"
  have bsh: "has_shape3 N V 3 blended"
    unfolding blended_def by (rule blend_result_shape)
  from TailorNetLF_forward_shape [OF lf t b g] obtain y
    where y: "TailorNetLF_forward (tailornet_lf net) thetas betas gammas = Inr y"
      "has_shape2 N (3 * V) y" by blast
  define lfv where "lfv = map (rows_of V 3) y"
  have lv: "bind_res (TailorNetLF_forward (tailornet_lf net) thetas betas gammas)
              (view_infer1_3 N 3) = Inr lfv"
    and lsh: "has_shape3 N V 3 lfv"
    using view_infer1_3_shape [OF y(2) N] y(1) by (simp_all add: lfv_def)
  have sum: "tensor_op3 (+) lfv blended = Inr (map2 (map2 (map2 (+))) lfv blended)"
    and ssh: "has_shape3 N V 3 (map2 (map2 (map2 (+))) lfv blended)"
    using tensor_op3_shape [OF lsh bsh] by blast+
  have len: "length thetas = N"
    using t by (simp add: has_shape2_iff)
  have "forward net betas thetas gammas = Inr (map2 (map2 (map2 (+))) lfv blended)"
    unfolding forward_def Let_def len seq bind_res_simps st
    using i4 lv sum by (simp add: blended_def)
  with hf(1) pv pn i4 lv ssh show ?thesis
    unfolding blended_def [symmetric] by blast
qed

lemma has_shape2_self: "list_all (\<lambda>r. length r = w) t \<Longrightarrow> has_shape2 (length t) w t"
  by (simp add: has_shape2_def)

lemma cat1_mismatch_three:
  "length b \<noteq> length t \<or> length g \<noteq> length t \<Longrightarrow> cat1 [t, b, g] = Inl (RuntimeError ''cat'')"
  by (auto simp: cat1_def)

lemma cat1_mismatch_two:
  "length g \<noteq> length b \<Longrightarrow> cat1 [b, g] = Inl (RuntimeError ''cat'')"
  by (auto simp: cat1_def)

lemma TailorNetSS2G_forward_mismatch:
  assumes b: "list_all (\<lambda>r. length r = 10) betas"
    and g: "list_all (\<lambda>r. length r = 4) gammas"
    and ne: "length gammas \<noteq> length betas"
  shows "TailorNetSS2G_forward m th (Some betas) (Some gammas) = Inl (RuntimeError ''cat'')"
proof -
  from mask_betas_shape [OF has_shape2_self [OF b]] obtain b'
    where b': "mask_betas betas (ss2g_cloth_type m) = Inr b'" "length b' = length betas"
    by (auto simp: has_shape2_iff)
  from mask_gammas_shape [OF has_shape2_self [OF g]] obtain g'
    where g': "mask_gammas gammas (ss2g_cloth_type m) = Inr g'" "length g' = length gammas"
    by (auto simp: has_shape2_iff)
  have "cat1 [b', g'] = Inl (RuntimeError ''cat'')"
    using ne b'(2) g'(2) by (intro cat1_mismatch_two) simp
  then show ?thesis
    using b'(1) g'(1) by (simp add: TailorNetSS2G_forward_def mask_inputs_def)
qed

lemma hf_stage_example:
  assumes "has_shape2 N 72 thetas" and "0 < N"
  shows "\<not> isl (sequence_res (map (\<lambda>h. bind_res (TailorNetHF_forward h thetas b g)
                  (view_infer1_3 N 3)) (tailornet_hfs example_net)))
       \<and> (\<exists>hf. sequence_res (map (\<lambda>h. bind_res (TailorNetHF_forward h thetas b g)
                  (view_infer1_3 N 3)) (tailornet_hfs example_net)) = Inr hf
                \<and> stack hf = Inr hf)"
proof -
  let ?run = "\<lambda>h. bind_res (TailorNetHF_forward h thetas b g) (view_infer1_3 N 3)"
  have one: "\<exists>y. ?run h = Inr y \<and> has_shape3 N 2 3 y" if "h \<in> set (tailornet_hfs example_net)" for h
  proof -
    from that have "mlp_out (hf_mlp h) 72 = Some (3 * 2)" "VALID_THETA (hf_cloth_type h) \<noteq> None"
      by (auto simp: example_net_def example_hf_def TailorNetHF_init_def mlp_out_example
          VALID_THETA_def)
    from TailorNetHF_forward_shape [OF this assms(1), of b g] obtain y
      where y: "TailorNetHF_forward h thetas b g = Inr y" "has_shape2 N (3 * 2) y" by blast
    with view_infer1_3_shape [OF y(2) assms(2)] show ?thesis by simp
  qed
  from map_Inr_exists [of "tailornet_hfs example_net" ?run "has_shape3 N 2 3", OF one] obtain hf
    where hf: "map ?run (tailornet_hfs example_net) = map Inr hf"
      "length hf = length (tailornet_hfs example_net)"
      "\<And>u. u \<in> set hf \<Longrightarrow> has_shape3 N 2 3 u"
    by auto
  have ne: "hf \<noteq> []" using hf(2) by (auto simp: example_net_def)
  have seq: "sequence_res (map ?run (tailornet_hfs example_net)) = Inr hf"
    by (simp only: hf(1) sequence_res_map_Inr_id)
  have st: "stack hf = Inr hf"
    using ne hf(3) by (rule stack_same_shape)
  from seq st show ?thesis by simp
qed

lemma example_hf_runs:
  assumes "has_shape2 N 72 thetas"
  shows "\<not> isl (TailorNetHF_forward example_hf thetas b g)"
proof -
  have "mlp_out (hf_mlp example_hf) 72 = Some 6" "VALID_THETA (hf_cloth_type example_hf) \<noteq> None"
    by (simp_all add: example_hf_def TailorNetHF_init_def mlp_out_example VALID_THETA_def)
  from TailorNetHF_forward_shape [OF this assms, of b g] show ?thesis by auto
qed

section \<open>Lemmas on the weights in float arithmetic\<close>

lemma f_add_Finite_D: "f_add x y = Finite s \<Longrightarrow> \<exists>a b. x = Finite a \<and> y = Finite b \<and> s = a + b"
  by (cases x; cases y) simp_all

lemma f_sum_Finite_D:
  "f_sum ws = Finite s \<Longrightarrow> \<exists>rs. ws = map Finite rs \<and> sum_list rs = s"
proof (induction ws arbitrary: s)
  case Nil
  then show ?case by simp
next
  case (Cons w ws)
  from Cons.prems obtain a b where ab: "w = Finite a" "f_sum ws = Finite b" "s = a + b"
    by (auto dest: f_add_Finite_D)
  from Cons.IH [OF ab(2)] obtain rs where "ws = map Finite rs" "sum_list rs = b" by blast
  with ab have "w # ws = map Finite (a # rs) \<and> sum_list (a # rs) = s" by simp
  then show ?case by (rule exI [of _ "a # rs"])
qed

lemma exp_f32_Finite_nonneg: "exp_f32 x = Finite r \<Longrightarrow> 0 \<le> r"
  by (cases x) (auto split: if_splits)

lemma exp_le_half_power: "x \<le> - real n \<Longrightarrow> exp x \<le> (1 / 2) ^ n"
proof -
  assume x: "x \<le> - real n"
  have "(2::real) \<le> exp 1"
    using exp_ge_add_one_self [of "1::real"] by simp
  then have "exp (- 1 :: real) \<le> 1 / 2"
    by (simp add: exp_minus field_simps)
  then have "exp (- 1 :: real) ^ n \<le> (1 / 2) ^ n"
    by (intro power_mono) simp_all
  moreover have "exp (- 1 :: real) ^ n = exp (- real n)"
    using exp_of_nat_mult [of n "- 1 :: real", symmetric] by simp
  ultimately have "exp (- real n) \<le> (1 / 2) ^ n" by simp
  moreover have "exp x \<le> exp (- real n)" using x by simp
  ultimately show ?thesis by (rule order_trans [rotated])
qed

lemma exp_f32_underflow: "x \<le> - 150 \<Longrightarrow> exp_f32 (Finite x) = Finite 0"
  using exp_le_half_power [of x 150] by (simp add: power_one_over)

lemma exp_f32_zero: "exp_f32 (Finite 0) = Finite 1"
  by simp

lemma interp4_weight_f32_rows:
  "interp4_weight_f32 sigma dists
   = Inr (map (\<lambda>d. map (\<lambda>x. f_div (exp_f32 (f_div (Finite (- x)) (Finite sigma)))
                              (f_sum (map (\<lambda>y. exp_f32 (f_div (Finite (- y)) (Finite sigma))) d)))
                  d) dists)"
proof -
  define E where "E = (\<lambda>d. exp_f32 (f_div (Finite (- d)) (Finite sigma)))"
  let ?w = "map (map E) dists"
  have row: "broadcast (\<lambda>w s. Inr (f_div w s)) r [s] = Inr (map (\<lambda>x. f_div x s) r)" for r s
    by (rule broadcast_right [where g = "\<lambda>x y. f_div x y"]) simp
  have "broadcast (broadcast (\<lambda>w s. Inr (f_div w s))) ?w (map (\<lambda>w. [f_sum w]) ?w)
        = Inr (map2 (\<lambda>r s. map (\<lambda>x. f_div x (hd s)) r) ?w (map (\<lambda>w. [f_sum w]) ?w))"
    by (rule broadcast_same [where g = "\<lambda>r s. map (\<lambda>x. f_div x (hd s)) r"]) (simp_all add: row)
  also have "map2 (\<lambda>r s. map (\<lambda>x. f_div x (hd s)) r) ?w (map (\<lambda>w. [f_sum w]) ?w)
      = map (\<lambda>d. map (\<lambda>x. f_div (E x) (f_sum (map E d))) d) dists"
    by (rule nth_equalityI) (simp_all add: comp_def)
  finally show ?thesis
    by (simp add: interp4_weight_f32_def Let_def E_def)
qed

lemma normalised_row_finite:
  assumes "f_sum ws = Finite s" and "s \<noteq> 0"
  shows "\<exists>rs. map (\<lambda>x. f_div x (f_sum ws)) ws = map Finite rs \<and> sum_list rs = 1"
proof -
  from f_sum_Finite_D [OF assms(1)] obtain us where us: "ws = map Finite us" "sum_list us = s"
    by blast
  have "map (\<lambda>x. f_div x (f_sum ws)) ws = map Finite (map (\<lambda>u. u / s) us)"
    using assms by (simp add: us(1) comp_def)
  moreover have "sum_list (map (\<lambda>u. u / s) us) = 1"
    using assms(2) us(2) by (simp add: sum_list_divide)
  ultimately show ?thesis by blast
qed

lemma broadcast4_weight:
  assumes p: "has_shape4 N P V D pivot" and w: "has_shape2 N P weight"
  shows "broadcast (broadcast (broadcast (broadcast (\<lambda>x w. Inr (h x w))))) pivot
           (map (map (\<lambda>w. [[w]])) weight)
         = Inr (map2 (map2 (\<lambda>pv w. map (map (\<lambda>x. h x w)) pv)) pivot weight)"
proof -
  have row: "broadcast (\<lambda>x w. Inr (h x w)) r [w] = Inr (map (\<lambda>x. h x w) r)" for r w
    by (rule broadcast_right [where g = "\<lambda>x w. h x w"]) simp
  have mat: "broadcast (broadcast (\<lambda>x w. Inr (h x w))) pv [[w]] = Inr (map (map (\<lambda>x. h x w)) pv)"
    for pv w
    using broadcast_right [where f = "broadcast (\<lambda>x w. Inr (h x w))" and xs = pv and y = "[w]"
        and g = "\<lambda>r y. map (\<lambda>x. h x (hd y)) r"]
    by (simp add: row)
  have piv: "broadcast (broadcast (broadcast (\<lambda>x w. Inr (h x w)))) (pivot ! b)
               (map (map (\<lambda>w. [[w]])) weight ! b)
             = Inr (map2 (\<lambda>pv w. map (map (\<lambda>x. h x w)) pv) (pivot ! b) (weight ! b))"
    if "b < N" for b
  proof -
    have l: "length (pivot ! b) = P" "length (weight ! b) = P" "length weight = N"
      using p w that by (simp_all add: has_shape4_iff has_shape3_iff has_shape2_iff)
    have "broadcast (broadcast (broadcast (\<lambda>x w. Inr (h x w)))) (pivot ! b) (map (\<lambda>w. [[w]]) (weight ! b))
          = Inr (map2 (\<lambda>pv y. map (map (\<lambda>x. h x (hd (hd y)))) pv) (pivot ! b)
                   (map (\<lambda>w. [[w]]) (weight ! b)))"
      by (rule broadcast_same [where g = "\<lambda>pv y. map (map (\<lambda>x. h x (hd (hd y)))) pv"])
        (simp_all add: l mat)
    also have "map2 (\<lambda>pv y. map (map (\<lambda>x. h x (hd (hd y)))) pv) (pivot ! b)
                   (map (\<lambda>w. [[w]]) (weight ! b))
               = map2 (\<lambda>pv w. map (map (\<lambda>x. h x w)) pv) (pivot ! b) (weight ! b)"
      using l by (intro nth_equalityI) simp_all
    finally show ?thesis using that l by simp
  qed
  have l: "length pivot = N" "length weight = N"
    using p w by (simp_all add: has_shape4_iff has_shape2_iff)
  have "broadcast (broadcast (broadcast (broadcast (\<lambda>x w. Inr (h x w))))) pivot
          (map (map (\<lambda>w. [[w]])) weight)
        = Inr (map2 (\<lambda>pb wb. map2 (\<lambda>pv w. map (map (\<lambda>x. h x (hd (hd w)))) pv) pb wb) pivot
                 (map (map (\<lambda>w. [[w]])) weight))"
  proof (rule broadcast_same
      [where g = "\<lambda>pb wb. map2 (\<lambda>pv w. map (map (\<lambda>x. h x (hd (hd w)))) pv) pb wb"])
    show "length pivot = length (map (map (\<lambda>w. [[w]])) weight)"
      using l by simp
  next
    fix b assume "b < length pivot"
    then have b: "b < N" using l by simp
    have lb: "length (pivot ! b) = P" "length (weight ! b) = P"
      using p w b by (simp_all add: has_shape4_iff has_shape3_iff has_shape2_iff)
    have "map2 (\<lambda>pv w. map (map (\<lambda>x. h x (hd (hd w)))) pv) (pivot ! b)
            (map (\<lambda>w. [[w]]) (weight ! b))
          = map2 (\<lambda>pv w. map (map (\<lambda>x. h x w)) pv) (pivot ! b) (weight ! b)"
      using lb by (intro nth_equalityI) simp_all
    then show "broadcast (broadcast (broadcast (\<lambda>x w. Inr (h x w)))) (pivot ! b)
                 (map (map (\<lambda>w. [[w]])) weight ! b)
               = Inr (map2 (\<lambda>pv w. map (map (\<lambda>x. h x (hd (hd w)))) pv) (pivot ! b)
                        (map (map (\<lambda>w. [[w]])) weight ! b))"
      using piv [OF b] b l by simp
  qed
  also have "map2 (\<lambda>pb wb. map2 (\<lambda>pv w. map (map (\<lambda>x. h x (hd (hd w)))) pv) pb wb) pivot
                 (map (map (\<lambda>w. [[w]])) weight)
             = map2 (map2 (\<lambda>pv w. map (map (\<lambda>x. h x w)) pv)) pivot weight"
  proof (rule nth_equalityI)
    fix b assume "b < length (map2 (\<lambda>pb wb. map2 (\<lambda>pv w. map (map (\<lambda>x. h x (hd (hd w)))) pv) pb wb)
                 pivot (map (map (\<lambda>w. [[w]])) weight))"
    then have b: "b < N" using l by simp
    have lb: "length (pivot ! b) = P" "length (weight ! b) = P"
      using p w b by (simp_all add: has_shape4_iff has_shape3_iff has_shape2_iff)
    have "map2 (\<lambda>pv w. map (map (\<lambda>x. h x (hd (hd w)))) pv) (pivot ! b)
            (map (\<lambda>w. [[w]]) (weight ! b))
          = map2 (\<lambda>pv w. map (map (\<lambda>x. h x w)) pv) (pivot ! b) (weight ! b)"
      using lb by (intro nth_equalityI) simp_all
    then show "map2 (\<lambda>pb wb. map2 (\<lambda>pv w. map (map (\<lambda>x. h x (hd (hd w)))) pv) pb wb) pivot
                 (map (map (\<lambda>w. [[w]])) weight) ! b
               = map2 (map2 (\<lambda>pv w. map (map (\<lambda>x. h x w)) pv)) pivot weight ! b"
      using b l by simp
  qed (simp add: l)
  finally show ?thesis .
qed

lemma foldl_add_NaN:
  "foldl (map2 (map2 f_add)) (replicate V (replicate D NaN)) (replicate k (replicate V (replicate D NaN)))
   = replicate V (replicate D NaN)"
  by (induction k) (simp_all add: zip_replicate map_replicate_const)

lemma interp4_blend_f32_NaN:
  assumes p: "has_shape4 N P V 3 pivot" and w: "has_shape2 N P weight" and P: "0 < P"
    and b: "b < N" and nan: "weight ! b = replicate P NaN"
  shows "\<exists>out. interp4_blend_f32 pivot weight = Inr out \<and> length out = N
           \<and> out ! b = replicate V (replicate 3 NaN)"
proof -
  let ?scaled = "map2 (map2 (\<lambda>pv w. map (map (\<lambda>x. f_mul (Finite x) w)) pv)) pivot weight"
  have l: "length pivot = N" "length weight = N"
    using p w by (simp_all add: has_shape4_iff has_shape2_iff)
  have lb: "length (pivot ! b) = P"
    using p b by (simp add: has_shape4_iff has_shape3_iff)
  have sh: "has_shape2 V 3 (pivot ! b ! q)" if "q < P" for q
    using p b that by (simp add: has_shape4_iff has_shape3_iff)
  have "?scaled ! b = map2 (\<lambda>pv w. map (map (\<lambda>x. f_mul (Finite x) w)) pv) (pivot ! b) (replicate P NaN)"
    using b l nan by simp
  also have "\<dots> = replicate P (replicate V (replicate 3 NaN))"
  proof (rule nth_equalityI)
    fix q assume "q < length (map2 (\<lambda>pv w. map (map (\<lambda>x. f_mul (Finite x) w)) pv) (pivot ! b)
                       (replicate P NaN))"
    then have q: "q < P" using lb by simp
    have "map (map (\<lambda>x. f_mul (Finite x) NaN)) (pivot ! b ! q) = replicate V (replicate 3 NaN)"
      using sh [OF q] by (auto simp: has_shape2_iff intro!: nth_equalityI)
    then show "map2 (\<lambda>pv w. map (map (\<lambda>x. f_mul (Finite x) w)) pv) (pivot ! b) (replicate P NaN) ! q
               = replicate P (replicate V (replicate 3 NaN)) ! q"
      using q lb by simp
  qed (simp add: lb)
  finally have row: "?scaled ! b = replicate P (replicate V (replicate 3 NaN))" .
  from P obtain k where k: "P = Suc k" by (cases P) auto
  have "sum_dim0_f32 (?scaled ! b) = replicate V (replicate 3 NaN)"
    unfolding row k by (simp add: sum_dim0_f32_def foldl_add_NaN)
  moreover have "interp4_blend_f32 pivot weight = Inr (map sum_dim0_f32 ?scaled)"
    by (simp add: interp4_blend_f32_def broadcast4_weight [OF p w])
  ultimately show ?thesis
    using b l by simp
qed

lemma normalised_row_NaN:
  assumes nn: "\<And>d r. E d = Finite r \<Longrightarrow> 0 \<le> r"
    and z: "f_sum (map E ds) = Finite 0"
  shows "map (\<lambda>x. f_div (E x) (f_sum (map E ds))) ds = replicate (length ds) NaN"
proof -
  from f_sum_Finite_D [OF z] obtain us
    where us: "map E ds = map Finite us" "sum_list us = 0" by blast
  have len: "length us = length ds" using us(1) by (metis length_map)
  have el: "E (ds ! i) = Finite (us ! i)" if "i < length ds" for i
    using us(1) that len by (metis nth_map)
  have "0 \<le> u" if "u \<in> set us" for u
  proof -
    from that obtain i where "i < length us" "us ! i = u" by (auto simp: in_set_conv_nth)
    with el [of i] len show ?thesis by (auto intro: nn)
  qed
  then have zero: "u = 0" if "u \<in> set us" for u
    using sum_list_nonneg_eq_0_iff [of us] us(2) that by auto
  show ?thesis
  proof (rule nth_equalityI)
    fix i assume "i < length (map (\<lambda>x. f_div (E x) (f_sum (map E ds))) ds)"
    then have i: "i < length ds" by simp
    then have "us ! i = 0" using zero len by simp
    with el [OF i] show "map (\<lambda>x. f_div (E x) (f_sum (map E ds))) ds ! i
                         = replicate (length ds) NaN ! i"
      using i z by simp
  qed simp
qed

lemma kernel_f32_nonneg:
  "exp_f32 (f_div (Finite (- d)) (Finite sigma)) = Finite r \<Longrightarrow> 0 \<le> r"
  by (rule exp_f32_Finite_nonneg)

lemma interp4_weight_f32_shape:
  "has_shape2 N P dists \<Longrightarrow>
   has_shape2 N P (map (\<lambda>d. map (\<lambda>x. f_div (E x) (f_sum (map E d))) d) dists)"
  by (simp add: has_shape2_iff)

lemma f_sum_map_Finite: "f_sum (map Finite us) = Finite (sum_list us)"
  by (induction us) simp_all

text \<open>
  Where no weight underflows or overflows, the weights in float arithmetic are those of
  the exact stage.
\<close>

lemma interp4_weight_f32_exact:
  assumes s: "sigma \<noteq> 0"
    and r: "\<And>ds d. ds \<in> set dists \<Longrightarrow> d \<in> set ds \<Longrightarrow>
              1 / 2 ^ 150 < exp (- d / sigma) \<and> exp (- d / sigma) < 2 ^ 128 - 2 ^ 103"
    and w: "interp4_weight sigma dists = Inr weight"
  shows "interp4_weight_f32 sigma dists = Inr (map (map Finite) weight)"
proof -
  define E where "E = (\<lambda>d. exp_f32 (f_div (Finite (- d)) (Finite sigma)))"
  have E: "E d = Finite (exp (- d / sigma))" if "ds \<in> set dists" "d \<in> set ds" for ds d
    using r [OF that] s by (simp add: E_def)
  have row: "map (\<lambda>x. f_div (E x) (f_sum (map E ds))) ds
             = map Finite (map (\<lambda>x. exp (- x / sigma) / sum_list (map (\<lambda>y. exp (- y / sigma)) ds)) ds)"
    if ds: "ds \<in> set dists" for ds
  proof (cases "ds = []")
    case True
    then show ?thesis by simp
  next
    case False
    have m: "map E ds = map Finite (map (\<lambda>y. exp (- y / sigma)) ds)"
      using E [OF ds] by simp
    have "0 < sum_list (map (\<lambda>y. exp (- y / sigma)) ds)"
    proof -
      from False obtain d rest where "ds = d # rest" by (cases ds) auto
      moreover have "0 \<le> sum_list (map (\<lambda>y. exp (- y / sigma)) rest)"
        by (rule sum_list_nonneg) auto
      ultimately show ?thesis by (simp add: add_pos_nonneg)
    qed
    then have nz: "sum_list (map (\<lambda>y. exp (- y / sigma)) ds) \<noteq> 0" by simp
    show ?thesis
      unfolding m f_sum_map_Finite using E [OF ds] nz by simp
  qed
  have "interp4_weight_f32 sigma dists
        = Inr (map (\<lambda>d. map (\<lambda>x. f_div (E x) (f_sum (map E d))) d) dists)"
    unfolding E_def by (rule interp4_weight_f32_rows)
  also have "map (\<lambda>d. map (\<lambda>x. f_div (E x) (f_sum (map E d))) d) dists
      = map (map Finite) (map (\<lambda>d. map (\<lambda>x. exp (- x / sigma)
            / sum_list (map (\<lambda>y. exp (- y / sigma)) d)) d) dists)"
    using row by simp
  also have "map (\<lambda>d. map (\<lambda>x. exp (- x / sigma) / sum_list (map (\<lambda>y. exp (- y / sigma)) d)) d) dists
             = weight"
    using w by (simp add: interp4_weight_rows)
  finally show ?thesis .
qed

section \<open>Lemmas on the errors of masking and of the predictor\<close>

lemma mask_betas_width10:
  assumes "list_all (\<lambda>r. length r = 10) betas"
  shows "mask_betas betas c
         = Inr (map (\<lambda>r. map (\<lambda>k. if k \<in> {0, 1} then r ! k else 0) [0..<10]) betas)"
proof -
  have b: "\<And>r. r \<in> set betas \<Longrightarrow> length r = 10"
    using assms by (simp add: list_all_iff)
  have "mask_betas betas c = Inr (map (\<lambda>r. map2 (*) r (column_mask (length r))) betas)"
    using b by (intro mask_betas_column_mask) simp
  also have "map (\<lambda>r. map2 (*) r (column_mask (length r))) betas
      = map (\<lambda>r. map (\<lambda>k. if k \<in> {0, 1} then r ! k else 0) [0..<10]) betas"
  proof (rule map_cong [OF refl])
    fix r assume "r \<in> set betas"
    then have "length r = 10" by (rule b)
    then show "map2 (*) r (column_mask (length r))
               = map (\<lambda>k. if k \<in> {0, 1} then r ! k else 0) [0..<10]"
      using column_mask_index_form [of r] by simp
  qed
  finally show ?thesis .
qed

lemma mask_gammas_width4:
  assumes "list_all (\<lambda>r. length r = 4) gammas"
  shows "mask_gammas gammas c
         = Inr (map (\<lambda>r. map (\<lambda>k. (if k \<in> {0, 1} then r ! k else 0)
                    + (if c = ''old-t-shirt'' then [0, 0, 1.5, 0] ! k else 0)) [0..<4]) gammas)"
proof -
  have g: "\<And>r. r \<in> set gammas \<Longrightarrow> length r = 4"
    using assms by (simp add: list_all_iff)
  have "mask_gammas gammas c
        = Inr (map (\<lambda>r. [r ! 0, r ! 1, if c = ''old-t-shirt'' then 1.5 else 0, 0]) gammas)"
    using g by (rule mask_gammas_rows)
  also have "map (\<lambda>r. [r ! 0, r ! 1, if c = ''old-t-shirt'' then 1.5 else 0, 0]) gammas
      = map (\<lambda>r. map (\<lambda>k. (if k \<in> {0, 1} then r ! k else 0)
                    + (if c = ''old-t-shirt'' then [0, 0, 1.5, 0] ! k else 0)) [0..<4]) gammas"
    by (intro map_cong refl) (simp add: upt_rec)
  finally show ?thesis .
qed

lemma mask_inputs_no_theta:
  assumes "has_width 10 betas" and "has_width 4 gammas"
  shows "mask_inputs None betas gammas c
     = Inr (None,
            map_option (map (\<lambda>r. map (\<lambda>k. if k \<in> {0, 1} then r ! k else 0) [0..<10])) betas,
            map_option (map (\<lambda>r. map (\<lambda>k. (if k \<in> {0, 1} then r ! k else 0)
                    + (if c = ''old-t-shirt'' then [0, 0, 1.5, 0] ! k else 0)) [0..<4])) gammas)"
proof -
  have b: "(case betas of None \<Rightarrow> Inr None
            | Some b \<Rightarrow> bind_res (mask_betas b c) (\<lambda>b'. Inr (Some b')))
           = Inr (map_option (map (\<lambda>r. map (\<lambda>k. if k \<in> {0, 1} then r ! k else 0) [0..<10])) betas)"
    using assms(1) by (cases betas) (simp_all add: has_width_def mask_betas_width10)
  have g: "(case gammas of None \<Rightarrow> Inr None
            | Some g \<Rightarrow> bind_res (mask_gammas g c) (\<lambda>g'. Inr (Some g')))
           = Inr (map_option (map (\<lambda>r. map (\<lambda>k. (if k \<in> {0, 1} then r ! k else 0)
                    + (if c = ''old-t-shirt'' then [0, 0, 1.5, 0] ! k else 0)) [0..<4])) gammas)"
    using assms(2) by (cases gammas) (simp_all add: has_width_def mask_gammas_width4)
  show ?thesis
    unfolding mask_inputs_def option.case bind_res_simps b g ..
qed

lemma mask_inputs_KeyError_iff:
  "mask_inputs thetas betas gammas c = Inl (KeyError k)
     \<longleftrightarrow> thetas \<noteq> None \<and> VALID_THETA c = None \<and> k = c"
proof (cases "thetas \<noteq> None \<and> VALID_THETA c = None")
  case True
  then show ?thesis
    by (auto simp: mask_inputs_def mask_thetas_unknown)
next
  case False
  then have "\<not> is_KeyError (mask_inputs thetas betas gammas c)"
    by (simp add: is_KeyError_mask_inputs)
  then have "mask_inputs thetas betas gammas c \<noteq> Inl (KeyError k)"
    by auto
  with False show ?thesis by blast
qed

lemma broadcast_error:
  assumes f: "\<And>x y e. f x y = Inl e \<Longrightarrow> e = RuntimeError ''broadcast''"
    and r: "broadcast f xs ys = Inl e"
  shows "e = RuntimeError ''broadcast''"
proof -
  have el: "e = RuntimeError ''broadcast''" if "sequence_res (map g zs) = Inl e"
    and "\<And>z. g z = Inl e \<Longrightarrow> e = RuntimeError ''broadcast''" for g :: "'z \<Rightarrow> error + 'c" and zs
  proof -
    from sequence_res_Inl [OF that(1)] obtain z where "g z = Inl e" by auto
    then show ?thesis by (rule that(2))
  qed
  show ?thesis
  proof (cases "length xs = length ys")
    case True
    with r have "sequence_res (map (\<lambda>(x, y). f x y) (zip xs ys)) = Inl e"
      by (simp add: broadcast_def)
    then show ?thesis
      by (rule el) (auto dest: f)
  next
    case False
    show ?thesis
    proof (cases "length xs = 1")
      case True
      with False r have "sequence_res (map (f (hd xs)) ys) = Inl e"
        by (simp add: broadcast_def)
      then show ?thesis by (rule el) (rule f)
    next
      case xs: False
      show ?thesis
      proof (cases "length ys = 1")
        case True
        with False xs r have "sequence_res (map (\<lambda>x. f x (hd ys)) xs) = Inl e"
          by (simp add: broadcast_def)
        then show ?thesis by (rule el) (rule f)
      next
        case ys: False
        with False xs r show ?thesis by (simp add: broadcast_def)
      qed
    qed
  qed
qed

lemma tensor_op4_error: "tensor_op4 g a b = Inl e \<Longrightarrow> e = RuntimeError ''broadcast''"
  unfolding tensor_op4_def
  by (erule broadcast_error [rotated], erule broadcast_error [rotated],
      erule broadcast_error [rotated], erule broadcast_error [rotated])
    (simp add: scalar_op_def)

lemma view_infer1_3_error: "view_infer1_3 n d t = Inl e \<Longrightarrow> e = RuntimeError ''view''"
  by (auto simp: view_infer1_3_def Let_def split: if_splits)

lemma interp4_dist_error: "interp4_dist r b = Inl e \<Longrightarrow> e = RuntimeError ''broadcast''"
  by (cases "tensor_op4 (-) (unsqueeze1 r) (unsqueeze0 b)")
    (auto simp: interp4_dist_def dest: tensor_op4_error)

lemma interp4_blend_error: "interp4_blend p w = Inl e \<Longrightarrow> e = RuntimeError ''broadcast''"
  by (cases "tensor_op4 (*) p (map (map (\<lambda>w. [[w]])) w)")
    (auto simp: interp4_blend_def dest: tensor_op4_error)

lemma interp4_error:
  assumes ss: "mlp_out (ss2g_mlp (tailornet_ss2g net)) 14 = Some w"
    and b: "list_all (\<lambda>r. length r = 10) betas" and g: "list_all (\<lambda>r. length r = 4) gammas"
    and e: "interp4 net thetas betas gammas pivot sigma = Inl e"
  shows "e = RuntimeError ''cat'' \<or> e = RuntimeError ''view'' \<or> e = RuntimeError ''broadcast''"
    and "length gammas \<noteq> length betas \<Longrightarrow> e = RuntimeError ''cat''"
proof -
  have neq: "e = RuntimeError ''cat''" if "length gammas \<noteq> length betas"
  proof -
    have "TailorNetSS2G_forward (tailornet_ss2g net) None (Some betas) (Some gammas)
          = Inl (RuntimeError ''cat'')"
      using b g that by (rule TailorNetSS2G_forward_mismatch)
    with e show ?thesis by (simp add: interp4_def Let_def)
  qed
  then show "length gammas \<noteq> length betas \<Longrightarrow> e = RuntimeError ''cat''" .
  show "e = RuntimeError ''cat'' \<or> e = RuntimeError ''view'' \<or> e = RuntimeError ''broadcast''"
  proof (cases "length gammas = length betas")
    case False
    then show ?thesis using neq by simp
  next
    case True
    have sb: "has_shape2 (length betas) 10 betas" using b by (rule has_shape2_self)
    have sg: "has_shape2 (length betas) 4 gammas"
      using has_shape2_self [OF g] True by simp
    from TailorNetSS2G_forward_shape [OF ss sb sg] obtain y
      where y: "TailorNetSS2G_forward (tailornet_ss2g net) None (Some betas) (Some gammas) = Inr y"
      by blast
    show ?thesis
    proof (cases "view_infer1_3 (length pivot) 3 y")
      case (Inl e')
      with e y have "e = e'" by (simp add: interp4_def Let_def)
      with view_infer1_3_error [OF Inl] show ?thesis by simp
    next
      case (Inr rest)
      show ?thesis
      proof (cases "interp4_dist rest (basis net)")
        case (Inl e')
        with e y Inr have "e = e'" by (simp add: interp4_def Let_def)
        with interp4_dist_error [OF Inl] show ?thesis by simp
      next
        case d: (Inr dists)
        have "interp4_blend pivot (map (\<lambda>d. map (\<lambda>x. exp (- x / sigma)
                / sum_list (map (\<lambda>y. exp (- y / sigma)) d)) d) dists) = Inl e"
          using e y Inr d by (simp add: interp4_def Let_def interp4_weight_rows)
        from interp4_blend_error [OF this] show ?thesis by simp
      qed
    qed
  qed
qed

lemma TailorNetLF_forward_cat:
  assumes v: "VALID_THETA (lf_cloth_type m) \<noteq> None"
    and t: "list_all (\<lambda>r. length r = 72) thetas"
    and b: "list_all (\<lambda>r. length r = 10) betas"
    and g: "list_all (\<lambda>r. length r = 4) gammas"
    and ne: "length betas \<noteq> length thetas \<or> length gammas \<noteq> length thetas"
  shows "TailorNetLF_forward m thetas betas gammas = Inl (RuntimeError ''cat'')"
proof -
  from mask_thetas_shape [OF has_shape2_self [OF t] v] obtain t'
    where t': "mask_thetas thetas (lf_cloth_type m) = Inr t'" "length t' = length thetas"
    by (auto simp: has_shape2_iff)
  from mask_betas_shape [OF has_shape2_self [OF b]] obtain b'
    where b': "mask_betas betas (lf_cloth_type m) = Inr b'" "length b' = length betas"
    by (auto simp: has_shape2_iff)
  from mask_gammas_shape [OF has_shape2_self [OF g]] obtain g'
    where g': "mask_gammas gammas (lf_cloth_type m) = Inr g'" "length g' = length gammas"
    by (auto simp: has_shape2_iff)
  have "cat1 [t', b', g'] = Inl (RuntimeError ''cat'')"
    using ne t'(2) b'(2) g'(2) by (intro cat1_mismatch_three) simp
  then show ?thesis
    using t'(1) b'(1) g'(1) by (simp add: TailorNetLF_forward_def mask_inputs_def)
qed

lemma forward_mismatch_stages:
  assumes net: "valid_net net P V" and N: "0 < N" and t: "has_shape2 N 72 thetas"
    and b: "list_all (\<lambda>r. length r = 10) betas" and g: "list_all (\<lambda>r. length r = 4) gammas"
    and ne: "length betas \<noteq> N \<or> length gammas \<noteq> N"
  shows "\<exists>hf m. map (\<lambda>h. bind_res (TailorNetHF_forward h thetas (Some betas) (Some gammas))
                    (view_infer1_3 N 3)) (tailornet_hfs net) = map Inr hf
           \<and> length hf = P \<and> (\<forall>u\<in>set hf. has_shape3 N V 3 u)
           \<and> TailorNetLF_forward (tailornet_lf net) thetas betas gammas = Inl (RuntimeError ''cat'')
           \<and> forward net betas thetas gammas = Inl (RuntimeError m)
           \<and> m \<in> {''cat'', ''view'', ''broadcast''}
           \<and> (length gammas \<noteq> length betas \<longrightarrow> m = ''cat''
                \<and> TailorNetSS2G_forward (tailornet_ss2g net) None (Some betas) (Some gammas)
                    = Inl (RuntimeError ''cat''))"
proof -
  from net have P: "0 < P" and lh: "length (tailornet_hfs net) = P"
    and hfs: "\<And>h. h \<in> set (tailornet_hfs net) \<Longrightarrow>
                mlp_out (hf_mlp h) 72 = Some (3 * V) \<and> VALID_THETA (hf_cloth_type h) \<noteq> None"
    and lf: "VALID_THETA (lf_cloth_type (tailornet_lf net)) \<noteq> None"
    and ss: "mlp_out (ss2g_mlp (tailornet_ss2g net)) 14 = Some (3 * V)"
    by (simp_all add: valid_net_def list_all_iff)
  have len: "length thetas = N" and tw: "list_all (\<lambda>r. length r = 72) thetas"
    using t by (simp_all add: has_shape2_def)
  let ?run = "\<lambda>h. bind_res (TailorNetHF_forward h thetas (Some betas) (Some gammas))
                      (view_infer1_3 N 3)"
  have one: "\<exists>y. ?run h = Inr y \<and> has_shape3 N V 3 y" if "h \<in> set (tailornet_hfs net)" for h
  proof -
    from hfs [OF that] TailorNetHF_forward_shape [of h "3 * V" N thetas "Some betas" "Some gammas"] t
    obtain y where y: "TailorNetHF_forward h thetas (Some betas) (Some gammas) = Inr y"
      "has_shape2 N (3 * V) y" by blast
    with view_infer1_3_shape [OF y(2) N] show ?thesis by simp
  qed
  from map_Inr_exists [of "tailornet_hfs net" ?run "has_shape3 N V 3", OF one] obtain hf
    where hf: "map ?run (tailornet_hfs net) = map Inr hf" "length hf = P"
      "\<forall>u\<in>set hf. has_shape3 N V 3 u"
    using lh by auto
  have ne': "hf \<noteq> []" using hf(2) P by auto
  have seq: "sequence_res (map ?run (tailornet_hfs net)) = Inr hf"
    by (simp only: hf(1) sequence_res_map_Inr_id)
  have st: "stack hf = Inr hf"
    using ne' hf(3) by (intro stack_same_shape) auto
  have lfe: "TailorNetLF_forward (tailornet_lf net) thetas betas gammas = Inl (RuntimeError ''cat'')"
    using lf tw b g ne len by (intro TailorNetLF_forward_cat) simp_all
  have "\<exists>m. forward net betas thetas gammas = Inl (RuntimeError m)
           \<and> m \<in> {''cat'', ''view'', ''broadcast''}
           \<and> (length gammas \<noteq> length betas \<longrightarrow> m = ''cat''
                \<and> TailorNetSS2G_forward (tailornet_ss2g net) None (Some betas) (Some gammas)
                    = Inl (RuntimeError ''cat''))"
  proof (cases "interp4 net thetas betas gammas (transpose01 hf) (kernel_sigma net)")
    case (Inl e)
    then have f: "forward net betas thetas gammas = Inl e"
      unfolding forward_def Let_def len seq bind_res_simps st by simp
    have "TailorNetSS2G_forward (tailornet_ss2g net) None (Some betas) (Some gammas)
          = Inl (RuntimeError ''cat'')" if "length gammas \<noteq> length betas"
      using b g that by (rule TailorNetSS2G_forward_mismatch)
    with interp4_error [OF ss b g Inl] f show ?thesis by auto
  next
    case (Inr h)
    have neq: "length gammas = length betas"
    proof (rule ccontr)
      assume "length gammas \<noteq> length betas"
      then have "TailorNetSS2G_forward (tailornet_ss2g net) None (Some betas) (Some gammas)
                 = Inl (RuntimeError ''cat'')"
        using b g by (intro TailorNetSS2G_forward_mismatch)
      with Inr show False by (simp add: interp4_def Let_def)
    qed
    have "forward net betas thetas gammas = Inl (RuntimeError ''cat'')"
      unfolding forward_def Let_def len seq bind_res_simps st Inr lfe ..
    with neq show ?thesis by simp
  qed
  with hf lfe show ?thesis by blast
qed

section \<open>Properties of the input masking\<close>

text \<open>
  Claim C6 (masking completeness). For a garment of the table and inputs of the documented
  shapes (\<open>N \<times> 72\<close>, \<open>N \<times> 10\<close>, \<open>N \<times> 4\<close>), masking succeeds, and every
  component is the input's where its index is valid and zero elsewhere: for theta the
  valid components are those of the joints listed for the garment (component \<open>k\<close>
  belongs to joint \<open>k div 3\<close>), for beta and gamma the components 0 and 1. For the
  garment \<^verbatim>\<open>old-t-shirt\<close> the row \<open>(0, 0, 1.5, 0)\<close> is added to the masked gamma.
\<close>

theorem mask_completeness:
  assumes "VALID_THETA c = Some valid"
    and "list_all (\<lambda>r. length r = 72) thetas"
    and "list_all (\<lambda>r. length r = 10) betas"
    and "list_all (\<lambda>r. length r = 4) gammas"
  shows "mask_thetas thetas c
           = Inr (map (\<lambda>r. map (\<lambda>k. if k div 3 \<in> set valid then r ! k else 0) [0..<72]) thetas)
       \<and> mask_betas betas c
           = Inr (map (\<lambda>r. map (\<lambda>k. if k \<in> {0, 1} then r ! k else 0) [0..<10]) betas)
       \<and> mask_gammas gammas c
           = Inr (map (\<lambda>r. map (\<lambda>k. (if k \<in> {0, 1} then r ! k else 0)
                    + (if c = ''old-t-shirt'' then [0, 0, 1.5, 0] ! k else 0)) [0..<4]) gammas)"
proof (intro conjI)
  have t: "\<And>r. r \<in> set thetas \<Longrightarrow> length r = 72"
    using assms(2) by (simp add: list_all_iff)
  have "mask_thetas thetas c = Inr (map (\<lambda>r. map2 (*) r (joint_mask valid)) thetas)"
    using t assms(1) by (rule mask_thetas_joint_mask)
  also have "map (\<lambda>r. map2 (*) r (joint_mask valid)) thetas
      = map (\<lambda>r. map (\<lambda>k. if k div 3 \<in> set valid then r ! k else 0) [0..<72]) thetas"
    using t by (intro map_cong refl joint_mask_index_form)
  finally show "mask_thetas thetas c
      = Inr (map (\<lambda>r. map (\<lambda>k. if k div 3 \<in> set valid then r ! k else 0) [0..<72]) thetas)" .
next
  have b: "\<And>r. r \<in> set betas \<Longrightarrow> length r = 10"
    using assms(3) by (simp add: list_all_iff)
  have "mask_betas betas c = Inr (map (\<lambda>r. map2 (*) r (column_mask (length r))) betas)"
    using b by (intro mask_betas_column_mask) simp
  also have "map (\<lambda>r. map2 (*) r (column_mask (length r))) betas
      = map (\<lambda>r. map (\<lambda>k. if k \<in> {0, 1} then r ! k else 0) [0..<10]) betas"
  proof (rule map_cong [OF refl])
    fix r assume "r \<in> set betas"
    then have "length r = 10" by (rule b)
    then show "map2 (*) r (column_mask (length r))
               = map (\<lambda>k. if k \<in> {0, 1} then r ! k else 0) [0..<10]"
      using column_mask_index_form [of r] by simp
  qed
  finally show "mask_betas betas c
      = Inr (map (\<lambda>r. map (\<lambda>k. if k \<in> {0, 1} then r ! k else 0) [0..<10]) betas)" .
next
  have g: "\<And>r. r \<in> set gammas \<Longrightarrow> length r = 4"
    using assms(4) by (simp add: list_all_iff)
  have "mask_gammas gammas c
        = Inr (map (\<lambda>r. [r ! 0, r ! 1, if c = ''old-t-shirt'' then 1.5 else 0, 0]) gammas)"
    using g by (rule mask_gammas_rows)
  also have "map (\<lambda>r. [r ! 0, r ! 1, if c = ''old-t-shirt'' then 1.5 else 0, 0]) gammas
      = map (\<lambda>r. map (\<lambda>k. (if k \<in> {0, 1} then r ! k else 0)
                    + (if c = ''old-t-shirt'' then [0, 0, 1.5, 0] ! k else 0)) [0..<4]) gammas"
    by (intro map_cong refl) (simp add: upt_rec)
  finally show "mask_gammas gammas c
      = Inr (map (\<lambda>r. map (\<lambda>k. (if k \<in> {0, 1} then r ! k else 0)
                    + (if c = ''old-t-shirt'' then [0, 0, 1.5, 0] ! k else 0)) [0..<4]) gammas)" .
qed

text \<open>
  The hypotheses of C6 hold for two pose samples, one shape sample and one style sample
  of the legacy t-shirt.
\<close>

theorem mask_completeness_witness:
  "mask_thetas [replicate 72 2, replicate 72 3] ''old-t-shirt''
           = Inr (map (\<lambda>r. map (\<lambda>k. if k div 3 \<in> set [0, 1, 2, 3, 6, 9, 12, 13, 14, 16, 17, 18, 19]
                                      then r ! k else 0) [0..<72])
                    [replicate 72 2, replicate 72 3])
       \<and> mask_betas [[1, 2, 3, 4, 5, 6, 7, 8, 9, 10]] ''old-t-shirt''
           = Inr (map (\<lambda>r. map (\<lambda>k. if k \<in> {0, 1} then r ! k else 0) [0..<10])
                    [[1, 2, 3, 4, 5, 6, 7, 8, 9, 10]])
       \<and> mask_gammas [[1, 2, 3, 4]] ''old-t-shirt''
           = Inr (map (\<lambda>r. map (\<lambda>k. (if k \<in> {0, 1} then r ! k else 0)
                    + (if ''old-t-shirt'' = ''old-t-shirt'' then [0, 0, 1.5, 0] ! k else 0)) [0..<4])
                    [[1, 2, 3, 4]])"
  by (rule mask_completeness) (simp_all add: VALID_THETA_def)

text \<open>
  Claim C7 (masking idempotence). For a garment of the table and inputs of the documented
  shapes, each of which may be absent, \<^verbatim>\<open>mask_inputs\<close> succeeds, and applying it
  again to its own result with the same garment returns that result unchanged. This
  includes \<^verbatim>\<open>old-t-shirt\<close>: the second masking zeroes component 2 of gamma before the
  offset is added again.
\<close>

theorem mask_inputs_idempotent:
  assumes "VALID_THETA c \<noteq> None"
    and "has_width 72 thetas" and "has_width 10 betas" and "has_width 4 gammas"
  shows "\<exists>t' b' g'. mask_inputs thetas betas gammas c = Inr (t', b', g')
                   \<and> mask_inputs t' b' g' c = Inr (t', b', g')"
proof -
  from assms(1) obtain valid where tab: "VALID_THETA c = Some valid" by auto
  have t: "\<exists>t'. (case thetas of None \<Rightarrow> Inr None
                 | Some t \<Rightarrow> bind_res (mask_thetas t c) (\<lambda>t'. Inr (Some t'))) = Inr t'
             \<and> (case t' of None \<Rightarrow> Inr None
                 | Some t \<Rightarrow> bind_res (mask_thetas t c) (\<lambda>t'. Inr (Some t'))) = Inr t'"
  proof (cases thetas)
    case (Some x)
    with assms(2) have w: "\<And>r. r \<in> set x \<Longrightarrow> length r = 72"
      by (simp add: has_width_def list_all_iff)
    from mask_thetas_twice [of x c valid, OF w tab] Some show ?thesis by fastforce
  qed simp
  have b: "\<exists>b'. (case betas of None \<Rightarrow> Inr None
                 | Some b \<Rightarrow> bind_res (mask_betas b c) (\<lambda>b'. Inr (Some b'))) = Inr b'
             \<and> (case b' of None \<Rightarrow> Inr None
                 | Some b \<Rightarrow> bind_res (mask_betas b c) (\<lambda>b'. Inr (Some b'))) = Inr b'"
  proof (cases betas)
    case (Some x)
    with assms(3) have w: "\<And>r. r \<in> set x \<Longrightarrow> 2 \<le> length r"
      by (simp add: has_width_def list_all_iff)
    from mask_betas_twice [of x c, OF w] Some show ?thesis by fastforce
  qed simp
  have g: "\<exists>g'. (case gammas of None \<Rightarrow> Inr None
                 | Some g \<Rightarrow> bind_res (mask_gammas g c) (\<lambda>g'. Inr (Some g'))) = Inr g'
             \<and> (case g' of None \<Rightarrow> Inr None
                 | Some g \<Rightarrow> bind_res (mask_gammas g c) (\<lambda>g'. Inr (Some g'))) = Inr g'"
  proof (cases gammas)
    case (Some x)
    with assms(4) have w: "\<And>r. r \<in> set x \<Longrightarrow> length r = 4"
      by (simp add: has_width_def list_all_iff)
    from mask_gammas_twice [of x c, OF w] Some show ?thesis by fastforce
  qed simp
  from t b g show ?thesis
    unfolding mask_inputs_def by (elim exE conjE) simp
qed

text \<open>
  The hypotheses of C7 hold for the legacy t-shirt with a pose, no shape and a style.
\<close>

theorem mask_inputs_idempotent_witness:
  "\<exists>t' b' g'. mask_inputs (Some [replicate 72 2]) None (Some [[1, 2, 3, 4]]) ''old-t-shirt''
                  = Inr (t', b', g')
              \<and> mask_inputs t' b' g' ''old-t-shirt'' = Inr (t', b', g')"
  by (rule mask_inputs_idempotent) (simp_all add: VALID_THETA_def has_width_def)

text \<open>
  Claim C8, as the code has it. The only check of the garment is the lookup in
  \<^verbatim>\<open>VALID_THETA\<close>, which \<^verbatim>\<open>mask_thetas\<close> alone performs. So \<^verbatim>\<open>mask_inputs\<close>
  fails with the unknown-garment error (a \<open>KeyError\<close> carrying the garment) exactly when
  theta is present and the garment is not in the table, and for a garment of the table
  the error is never raised. When theta is absent the garment is not validated: for
  every garment whatever, in the table or not, masking a beta of width 10 and a gamma
  of width 4 (each of which may be absent) succeeds and returns the masked tensors.
\<close>

theorem mask_inputs_category_check:
  "(mask_inputs thetas betas gammas c = Inl (KeyError k)
      \<longleftrightarrow> thetas \<noteq> None \<and> VALID_THETA c = None \<and> k = c)
   \<and> (has_width 10 betas \<and> has_width 4 gammas \<longrightarrow>
        mask_inputs None betas gammas c
        = Inr (None,
            map_option (map (\<lambda>r. map (\<lambda>k. if k \<in> {0, 1} then r ! k else 0) [0..<10])) betas,
            map_option (map (\<lambda>r. map (\<lambda>k. (if k \<in> {0, 1} then r ! k else 0)
                    + (if c = ''old-t-shirt'' then [0, 0, 1.5, 0] ! k else 0)) [0..<4])) gammas))"
  using mask_inputs_KeyError_iff [of thetas betas gammas c k]
    mask_inputs_no_theta [of betas gammas c]
  by blast

text \<open>
  The parts of C8 at concrete inputs: an unknown garment with a pose, a known one, and
  an unknown garment with a shape and no pose.
\<close>

theorem mask_inputs_category_check_witness:
  "mask_inputs (Some [[1]]) None None ''hat'' = Inl (KeyError ''hat'')
   \<and> mask_inputs (Some [replicate 72 1]) None None ''skirt'' \<noteq> Inl (KeyError ''skirt'')
   \<and> mask_inputs None (Some [[1, 2, 3, 4, 5, 6, 7, 8, 9, 10]]) None ''hat''
       = Inr (None, Some [[1, 2, 0, 0, 0, 0, 0, 0, 0, 0]], None)"
proof -
  have w: "has_width 10 (Some [[1, 2, 3, 4, 5, 6, 7, 8, 9, 10 :: real]]) \<and> has_width 4 None"
    by (simp add: has_width_def)
  have "mask_inputs None (Some [[1, 2, 3, 4, 5, 6, 7, 8, 9, 10]]) None ''hat''
        = Inr (None,
            map_option (map (\<lambda>r. map (\<lambda>k. if k \<in> {0, 1} then r ! k else 0) [0..<10]))
              (Some [[1, 2, 3, 4, 5, 6, 7, 8, 9, 10]]),
            map_option (map (\<lambda>r. map (\<lambda>k. (if k \<in> {0, 1} then r ! k else 0)
                    + (if ''hat'' = ''old-t-shirt'' then [0, 0, 1.5, 0] ! k else 0)) [0..<4])) None)"
    using w mask_inputs_category_check
      [of "Some [[1]]" "Some [[1, 2, 3, 4, 5, 6, 7, 8, 9, 10]]" None "''hat''" "''hat''"]
    by blast
  then have "mask_inputs None (Some [[1, 2, 3, 4, 5, 6, 7, 8, 9, 10]]) None ''hat''
       = Inr (None, Some [[1, 2, 0, 0, 0, 0, 0, 0, 0, 0]], None)"
    by (simp add: upt_rec)
  moreover have "mask_inputs (Some [[1]]) None None ''hat'' = Inl (KeyError ''hat'')"
    using mask_inputs_category_check [of "Some [[1]]" None None "''hat''" "''hat''"]
    by (simp add: VALID_THETA_def)
  moreover have "mask_inputs (Some [replicate 72 1]) None None ''skirt'' \<noteq> Inl (KeyError ''skirt'')"
    using mask_inputs_category_check [of "Some [replicate 72 1]" None None "''skirt''" "''skirt''"]
    by (simp add: VALID_THETA_def)
  ultimately show ?thesis by blast
qed

text \<open>
  Claim C8 as stated fails: \<^verbatim>\<open>dress\<close> is not in the table, and yet masking a shape and
  a style without a pose returns a result (this is the call that the shape-style
  predictor makes).
\<close>

theorem mask_inputs_unknown_category_counterexample:
  "VALID_THETA ''dress'' = None
   \<and> mask_inputs None (Some [[1, 2, 3, 4, 5, 6, 7, 8, 9, 10]]) (Some [[1, 2, 3, 4]]) ''dress''
       = Inr (None, Some [[1, 2, 0, 0, 0, 0, 0, 0, 0, 0]], Some [[1, 2, 0, 0]])"
  by (simp add: VALID_THETA_def mask_inputs_def mask_betas_def mask_gammas_def zeros_like_def
      tensor_op2_def broadcast_def scalar_op_def)

text \<open>
  Claim C10. The legacy garment \<^verbatim>\<open>old-t-shirt\<close> has the joints of \<^verbatim>\<open>t-shirt\<close> in the
  table, and masking any pose tensor with either gives the same outcome, errors
  included.
\<close>

theorem mask_thetas_old_t_shirt:
  "VALID_THETA ''old-t-shirt'' = VALID_THETA ''t-shirt''
   \<and> mask_thetas thetas ''old-t-shirt'' = mask_thetas thetas ''t-shirt''"
  by (simp add: mask_thetas_def VALID_THETA_def)

section \<open>Properties of the kernel blending and of the high-frequency predictor\<close>

text \<open>
  Claim C1 (kernel blending). Let the basis hold \<open>P\<close> pivots of \<open>V\<close> vertices, the
  shape-style network map 14 inputs to \<open>3 V\<close> outputs, the batch hold \<open>N\<close> samples and
  the pivot fields have shape \<open>N \<times> P \<times> V \<times> 3\<close>. Then \<^verbatim>\<open>interp4\<close> succeeds; the
  distances it computes are, for each batch element and pivot, the mean over the
  vertices of the squared Euclidean distance between the rest vertices and the pivot's
  basis, times 1000 (\<open>spec_dist\<close>); and its result is, component by component, the
  sum over the pivots of the pivot field times the weight \<open>exp (- dist / sigma)\<close>
  divided by the sum of the weights of the batch element (\<open>spec_blend\<close>).
\<close>

theorem interp4_kernel_blending:
  assumes "0 < N" and "0 < P" and "0 < V" and "sigma \<noteq> 0"
    and "has_shape3 P V 3 (basis net)"
    and "mlp_out (ss2g_mlp (tailornet_ss2g net)) 14 = Some (3 * V)"
    and "has_shape2 N 10 betas" and "has_shape2 N 4 gammas"
    and "has_shape4 N P V 3 pred_disp_pivot"
  shows "\<exists>rest_verts.
     bind_res (TailorNetSS2G_forward (tailornet_ss2g net) None (Some betas) (Some gammas))
       (view_infer1_3 N 3) = Inr rest_verts
   \<and> has_shape3 N V 3 rest_verts
   \<and> interp4_dist rest_verts (basis net)
       = Inr (map (\<lambda>b. map (spec_dist rest_verts (basis net) b) [0..<P]) [0..<N])
   \<and> interp4 net thetas betas gammas pred_disp_pivot sigma
       = Inr (map (\<lambda>b. map (\<lambda>v. map (\<lambda>c.
                 spec_blend sigma rest_verts (basis net) pred_disp_pivot b v c)
                 [0..<3]) [0..<V]) [0..<N])"
  using assms(1,2,5-9) by (rule interp4_spec)

text \<open>
  The hypotheses of C1 hold for the example predictor and a batch of one sample.
\<close>

theorem interp4_kernel_blending_witness:
  "\<exists>rest_verts.
     bind_res (TailorNetSS2G_forward (tailornet_ss2g example_net) None
                 (Some [[1, 2, 3, 4, 5, 6, 7, 8, 9, 10]]) (Some [[1, 2, 3, 4]]))
       (view_infer1_3 1 3) = Inr rest_verts
   \<and> has_shape3 1 2 3 rest_verts
   \<and> interp4_dist rest_verts (basis example_net)
       = Inr (map (\<lambda>b. map (spec_dist rest_verts (basis example_net) b) [0..<2]) [0..<1])
   \<and> interp4 example_net [replicate 72 1] [[1, 2, 3, 4, 5, 6, 7, 8, 9, 10]] [[1, 2, 3, 4]]
         [[[[1, 2, 3], [4, 5, 6]], [[0, 0, 0], [1, 1, 1]]]] (1 / 100)
       = Inr (map (\<lambda>b. map (\<lambda>v. map (\<lambda>c.
                 spec_blend (1 / 100) rest_verts (basis example_net)
                   [[[[1, 2, 3], [4, 5, 6]], [[0, 0, 0], [1, 1, 1]]]] b v c)
                 [0..<3]) [0..<2]) [0..<1])"
  by (rule interp4_kernel_blending)
    (simp_all add: example_net_def TailorNetSS2G_init_def mlp_out_example
      has_shape4_def has_shape3_def has_shape2_def)

text \<open>
  Claim C3 (weight normalisation), in the float arithmetic of the source. For every
  batch element whose normalisation denominator, the sum over the pivots of the weights
  \<open>exp (- dist / sigma)\<close> as the floats give them, is a number other than zero, the
  normalised weights are numbers and sum to 1. The side condition does exclude inputs: the
  weights of a batch element underflow to zero together as soon as all its distances
  exceed about \<open>104 sigma\<close>.
\<close>

theorem interp4_weight_f32_sums_to_one:
  assumes "b < length dists"
    and "f_sum (map (\<lambda>d. exp_f32 (f_div (Finite (- d)) (Finite sigma))) (dists ! b)) = Finite s"
    and "s \<noteq> 0"
  shows "\<exists>weight ws. interp4_weight_f32 sigma dists = Inr weight \<and> length weight = length dists
           \<and> weight ! b = map Finite ws \<and> sum_list ws = 1 \<and> f_sum (weight ! b) = Finite 1"
proof -
  define E where "E = (\<lambda>d. exp_f32 (f_div (Finite (- d)) (Finite sigma)))"
  let ?w = "map (\<lambda>d. map (\<lambda>x. f_div (E x) (f_sum (map E d))) d) dists"
  have w: "interp4_weight_f32 sigma dists = Inr ?w"
    unfolding E_def by (rule interp4_weight_f32_rows)
  have s: "f_sum (map E (dists ! b)) = Finite s"
    using assms(2) by (simp add: E_def)
  from normalised_row_finite [OF s assms(3)] obtain ws
    where "map (\<lambda>x. f_div x (f_sum (map E (dists ! b)))) (map E (dists ! b)) = map Finite ws"
      "sum_list ws = 1" by blast
  then have "?w ! b = map Finite ws \<and> sum_list ws = 1"
    using assms(1) by (simp add: comp_def)
  moreover from this have "f_sum (?w ! b) = Finite 1"
    by (simp only: f_sum_map_Finite)
  ultimately show ?thesis using w by auto
qed

text \<open>
  The hypotheses of C3 hold for the second element of this batch at the default
  bandwidth: its weights are 1 and 0. (The first element is degenerate.)
\<close>

theorem interp4_weight_f32_sums_to_one_witness:
  "\<exists>weight ws. interp4_weight_f32 (1 / 100) [[3, 3], [0, 5]] = Inr weight
     \<and> length weight = length [[3, 3], [0, 5 :: real]]
     \<and> weight ! 1 = map Finite ws \<and> sum_list ws = 1 \<and> f_sum (weight ! 1) = Finite 1"
proof (rule interp4_weight_f32_sums_to_one)
  show "1 < length [[3, 3], [0, 5 :: real]]" by simp
  show "f_sum (map (\<lambda>d. exp_f32 (f_div (Finite (- d)) (Finite (1 / 100)))) ([[3, 3], [0, 5]] ! 1))
        = Finite 1"
    by (simp add: exp_f32_underflow exp_f32_zero del: exp_f32.simps)
  show "(1::real) \<noteq> 0" by simp
qed

text \<open>
  Claim C4, as the code has it. Lines 309 to 314 have no test of the denominator, no
  clamping and no fallback. When the weights of a batch element have all underflowed,
  so that the denominator is zero, each of its normalised weights is \<open>0 / 0\<close>, that is
  NaN, and every component of its blended output is NaN.
\<close>

theorem interp4_f32_degenerate_NaN:
  assumes "has_shape4 N P V 3 pred_disp_pivot" and "has_shape2 N P dists" and "0 < P"
    and "b < N"
    and "f_sum (map (\<lambda>d. exp_f32 (f_div (Finite (- d)) (Finite sigma))) (dists ! b)) = Finite 0"
  shows "\<exists>weight out. interp4_weight_f32 sigma dists = Inr weight
           \<and> weight ! b = replicate P NaN
           \<and> interp4_blend_f32 pred_disp_pivot weight = Inr out
           \<and> out ! b = replicate V (replicate 3 NaN)"
proof -
  define E where "E = (\<lambda>d. exp_f32 (f_div (Finite (- d)) (Finite sigma)))"
  let ?w = "map (\<lambda>d. map (\<lambda>x. f_div (E x) (f_sum (map E d))) d) dists"
  have w: "interp4_weight_f32 sigma dists = Inr ?w"
    unfolding E_def by (rule interp4_weight_f32_rows)
  have wsh: "has_shape2 N P ?w"
    using assms(2) by (rule interp4_weight_f32_shape)
  have lb: "length dists = N" "length (dists ! b) = P"
    using assms(2,4) by (simp_all add: has_shape2_iff)
  have z: "f_sum (map E (dists ! b)) = Finite 0"
    using assms(5) by (simp add: E_def)
  have nn: "\<And>d r. E d = Finite r \<Longrightarrow> 0 \<le> r"
    unfolding E_def by (rule kernel_f32_nonneg)
  have row: "?w ! b = replicate P NaN"
    using normalised_row_NaN [of E "dists ! b", OF nn z] assms(4) lb by simp
  from interp4_blend_f32_NaN [OF assms(1) wsh assms(3,4) row] obtain out
    where "interp4_blend_f32 pred_disp_pivot ?w = Inr out" "out ! b = replicate V (replicate 3 NaN)"
    by blast
  with w row show ?thesis by blast
qed

text \<open>
  The hypotheses of the amended C4 hold for one batch element with the distances 2 and
  4, two pivots and one vertex, at the default bandwidth.
\<close>

theorem interp4_f32_degenerate_NaN_witness:
  "\<exists>weight out. interp4_weight_f32 (1 / 100) [[2, 4]] = Inr weight
           \<and> weight ! 0 = replicate 2 NaN
           \<and> interp4_blend_f32 [[[[1, 2, 3]], [[4, 5, 6]]]] weight = Inr out
           \<and> out ! 0 = replicate 1 (replicate 3 NaN)"
proof (rule interp4_f32_degenerate_NaN)
  show "has_shape4 1 2 1 3 [[[[1, 2, 3]], [[4, 5, 6 :: real]]]]"
    by (simp add: has_shape4_def has_shape3_def has_shape2_def)
  show "has_shape2 1 2 [[2, 4 :: real]]" by (simp add: has_shape2_def)
  show "0 < (2::nat)" by simp
  show "0 < (1::nat)" by simp
  show "f_sum (map (\<lambda>d. exp_f32 (f_div (Finite (- d)) (Finite (1 / 100)))) ([[2, 4]] ! 0))
        = Finite 0"
    by (simp add: exp_f32_underflow del: exp_f32.simps)
qed

text \<open>
  Claim C4 as stated fails: for the distances 2 and 4 at the default bandwidth 0.01 the
  weights returned are NaN, not the uniform ones, and blending two pivot fields with
  them gives NaN in every component of the output.
\<close>

theorem interp4_f32_no_fallback_counterexample:
  "interp4_weight_f32 (1 / 100) [[2, 4]] = Inr [[NaN, NaN]]
   \<and> interp4_blend_f32 [[[[1, 2, 3]], [[4, 5, 6]]]] [[NaN, NaN]] = Inr [[[NaN, NaN, NaN]]]"
proof
  show "interp4_weight_f32 (1 / 100) [[2, 4]] = Inr [[NaN, NaN]]"
    by (simp add: interp4_weight_f32_rows exp_f32_underflow del: exp_f32.simps)
  show "interp4_blend_f32 [[[[1, 2, 3]], [[4, 5, 6]]]] [[NaN, NaN]] = Inr [[[NaN, NaN, NaN]]]"
    by (simp add: interp4_blend_f32_def broadcast_def sum_dim0_f32_def)
qed

text \<open>
  Claim C9. The output of the high-frequency predictor is a function of the masked theta
  alone: two calls whose thetas mask to the same tensor give the same outcome, whatever
  betas and gammas are passed, \<^verbatim>\<open>None\<close> included. With the same theta this is the
  claim.
\<close>

theorem TailorNetHF_forward_theta_only:
  "mask_thetas thetas (hf_cloth_type m) = mask_thetas thetas' (hf_cloth_type m)
   \<Longrightarrow> TailorNetHF_forward m thetas betas gammas = TailorNetHF_forward m thetas' betas' gammas'"
  by (simp add: TailorNetHF_forward_def)

text \<open>
  Two poses that differ only in joints that the skirt masks, one call without shape and
  style and one with both.
\<close>

theorem TailorNetHF_forward_theta_only_witness:
  "TailorNetHF_forward (TailorNetHF_init example_mk ''skirt'' 1 2 6)
     [replicate 9 1 @ replicate 63 2] None None
   = TailorNetHF_forward (TailorNetHF_init example_mk ''skirt'' 1 2 6)
     [replicate 9 1 @ replicate 63 5] (Some [[1, 2, 3, 4, 5, 6, 7, 8, 9, 10]]) (Some [[1, 2, 3, 4]])"
proof (rule TailorNetHF_forward_theta_only)
  have v: "VALID_THETA ''skirt'' = Some [0, 1, 2]"
    by (simp add: VALID_THETA_def)
  have j: "joint_mask [0, 1, 2] = replicate 9 1 @ replicate 63 0"
    by (rule nth_equalityI) (auto simp: length_joint_mask nth_joint_mask nth_append)
  have m: "mask_thetas [replicate 9 1 @ replicate 63 x] ''skirt''
           = Inr [replicate 9 1 @ replicate 63 0]" for x
  proof -
    have "mask_thetas [replicate 9 1 @ replicate 63 x] ''skirt''
          = Inr (map (\<lambda>r. map2 (*) r (joint_mask [0, 1, 2])) [replicate 9 1 @ replicate 63 x])"
      by (rule mask_thetas_joint_mask) (simp_all add: v)
    moreover have "map2 (*) (replicate 9 1 @ replicate 63 x) (replicate 9 1 @ replicate 63 (0::real))
                   = replicate 9 1 @ replicate 63 0"
      by (simp add: zip_replicate)
    ultimately show ?thesis
      by (simp only: j list.map)
  qed
  show "mask_thetas [replicate 9 1 @ replicate 63 2]
          (hf_cloth_type (TailorNetHF_init example_mk ''skirt'' 1 2 6))
        = mask_thetas [replicate 9 1 @ replicate 63 5]
          (hf_cloth_type (TailorNetHF_init example_mk ''skirt'' 1 2 6))"
    by (simp only: TailorNetHF_init_def TailorNetHF.simps m)
qed

section \<open>Properties of the predictor\<close>

text \<open>
  Claim C2 (the orchestrator). For a valid predictor of \<open>P\<close> pivots and \<open>V\<close>
  vertices and a valid batch of \<open>N\<close> samples, every high-frequency sub-model returns a
  field; stacked and transposed they form a tensor of shape \<open>N \<times> P \<times> V \<times> 3\<close> whose
  entry for batch element \<open>b\<close> and pivot \<open>p\<close> is the output of sub-model \<open>p\<close> on
  \<open>b\<close>; \<^verbatim>\<open>interp4\<close> blends it; the low-frequency predictor returns a field; and
  \<^verbatim>\<open>forward\<close> returns the elementwise sum of the low-frequency field and the blended
  one, of shape \<open>N \<times> V \<times> 3\<close>.
\<close>

theorem forward_sum_of_bands:
  assumes "valid_net net P V" and "valid_input N thetas betas gammas"
  shows "\<exists>hf lf blended.
      map (\<lambda>h. bind_res (TailorNetHF_forward h thetas (Some betas) (Some gammas))
                  (view_infer1_3 N 3)) (tailornet_hfs net) = map Inr hf
    \<and> has_shape4 N P V 3 (transpose01 hf)
    \<and> (\<forall>b<N. \<forall>p<P. transpose01 hf ! b ! p = hf ! p ! b)
    \<and> interp4 net thetas betas gammas (transpose01 hf) (kernel_sigma net) = Inr blended
    \<and> bind_res (TailorNetLF_forward (tailornet_lf net) thetas betas gammas)
         (view_infer1_3 N 3) = Inr lf
    \<and> forward net betas thetas gammas = Inr (map2 (map2 (map2 (+))) lf blended)
    \<and> has_shape3 N V 3 (map2 (map2 (map2 (+))) lf blended)"
  using assms by (rule forward_valid)

text \<open>
  The hypotheses of C2 hold for the example predictor and a batch of one sample.
\<close>

theorem forward_sum_of_bands_witness:
  "\<exists>hf lf blended.
      map (\<lambda>h. bind_res (TailorNetHF_forward h [replicate 72 1]
                            (Some [[1, 2, 3, 4, 5, 6, 7, 8, 9, 10]]) (Some [[1, 2, 3, 4]]))
                  (view_infer1_3 1 3)) (tailornet_hfs example_net) = map Inr hf
    \<and> has_shape4 1 2 2 3 (transpose01 hf)
    \<and> (\<forall>b<1. \<forall>p<2. transpose01 hf ! b ! p = hf ! p ! b)
    \<and> interp4 example_net [replicate 72 1] [[1, 2, 3, 4, 5, 6, 7, 8, 9, 10]] [[1, 2, 3, 4]]
         (transpose01 hf) (kernel_sigma example_net) = Inr blended
    \<and> bind_res (TailorNetLF_forward (tailornet_lf example_net) [replicate 72 1]
                   [[1, 2, 3, 4, 5, 6, 7, 8, 9, 10]] [[1, 2, 3, 4]])
         (view_infer1_3 1 3) = Inr lf
    \<and> forward example_net [[1, 2, 3, 4, 5, 6, 7, 8, 9, 10]] [replicate 72 1] [[1, 2, 3, 4]]
        = Inr (map2 (map2 (map2 (+))) lf blended)
    \<and> has_shape3 1 2 3 (map2 (map2 (map2 (+))) lf blended)"
proof (rule forward_sum_of_bands)
  show "valid_net example_net 2 2" by (rule valid_example_net)
  show "valid_input 1 [replicate 72 1] [[1, 2, 3, 4, 5, 6, 7, 8, 9, 10]] [[1, 2, 3, 4]]"
    by (simp add: valid_input_def has_shape2_def)
qed

text \<open>
  Claim C5, as the code has it. \<^verbatim>\<open>forward\<close> has no check of the batch sizes. Take
  a valid predictor, \<open>N\<close> poses of width 72, and shapes and styles of widths 10 and 4
  of which one does not have \<open>N\<close> samples. Then every high-frequency sub-model runs
  and returns its field of shape \<open>N \<times> V \<times> 3\<close>, and only then does the call fail, with
  the \<open>RuntimeError\<close> of the tensor operation that meets the disagreement: the
  \<^verbatim>\<open>torch.cat\<close> of the shape-style predictor when beta and gamma disagree with each
  other, otherwise a \<^verbatim>\<open>view\<close> or a broadcast in \<^verbatim>\<open>interp4\<close> or, at the latest,
  the \<^verbatim>\<open>torch.cat\<close> of the low-frequency predictor, which fails on such inputs. For
  a valid predictor and a valid batch, of equal batch sizes, the call returns a field.
\<close>

theorem forward_batch_sizes:
  "(valid_net net P V \<and> 0 < N \<and> has_shape2 N 72 thetas
      \<and> list_all (\<lambda>r. length r = 10) betas \<and> list_all (\<lambda>r. length r = 4) gammas
      \<and> (length betas \<noteq> N \<or> length gammas \<noteq> N)
     \<longrightarrow> (\<exists>hf m. map (\<lambda>h. bind_res (TailorNetHF_forward h thetas (Some betas) (Some gammas))
                    (view_infer1_3 N 3)) (tailornet_hfs net) = map Inr hf
           \<and> length hf = P \<and> (\<forall>u\<in>set hf. has_shape3 N V 3 u)
           \<and> TailorNetLF_forward (tailornet_lf net) thetas betas gammas = Inl (RuntimeError ''cat'')
           \<and> forward net betas thetas gammas = Inl (RuntimeError m)
           \<and> m \<in> {''cat'', ''view'', ''broadcast''}
           \<and> (length gammas \<noteq> length betas \<longrightarrow> m = ''cat''
                \<and> TailorNetSS2G_forward (tailornet_ss2g net) None (Some betas) (Some gammas)
                    = Inl (RuntimeError ''cat''))))
   \<and> (valid_net net P V \<and> valid_input N thetas betas gammas
     \<longrightarrow> (\<exists>out. forward net betas thetas gammas = Inr out))"
proof (intro conjI impI)
  assume a: "valid_net net P V \<and> 0 < N \<and> has_shape2 N 72 thetas
      \<and> list_all (\<lambda>r. length r = 10) betas \<and> list_all (\<lambda>r. length r = 4) gammas
      \<and> (length betas \<noteq> N \<or> length gammas \<noteq> N)"
  show "\<exists>hf m. map (\<lambda>h. bind_res (TailorNetHF_forward h thetas (Some betas) (Some gammas))
                    (view_infer1_3 N 3)) (tailornet_hfs net) = map Inr hf
           \<and> length hf = P \<and> (\<forall>u\<in>set hf. has_shape3 N V 3 u)
           \<and> TailorNetLF_forward (tailornet_lf net) thetas betas gammas = Inl (RuntimeError ''cat'')
           \<and> forward net betas thetas gammas = Inl (RuntimeError m)
           \<and> m \<in> {''cat'', ''view'', ''broadcast''}
           \<and> (length gammas \<noteq> length betas \<longrightarrow> m = ''cat''
                \<and> TailorNetSS2G_forward (tailornet_ss2g net) None (Some betas) (Some gammas)
                    = Inl (RuntimeError ''cat''))"
    by (rule forward_mismatch_stages) (use a in simp_all)
next
  assume "valid_net net P V \<and> valid_input N thetas betas gammas"
  then have "valid_net net P V" "valid_input N thetas betas gammas" by simp_all
  from forward_valid [OF this] show "\<exists>out. forward net betas thetas gammas = Inr out"
    by blast
qed

text \<open>
  Both parts at concrete inputs: two poses with one shape and one style, and one of each.
\<close>

theorem forward_batch_sizes_witness:
  "(\<exists>m. forward example_net [[1, 2, 3, 4, 5, 6, 7, 8, 9, 10]] [replicate 72 1, replicate 72 2]
           [[1, 2, 3, 4]] = Inl (RuntimeError m) \<and> m \<in> {''cat'', ''view'', ''broadcast''})
   \<and> (\<exists>out. forward example_net [[1, 2, 3, 4, 5, 6, 7, 8, 9, 10]] [replicate 72 1]
           [[1, 2, 3, 4]] = Inr out)"
proof
  have "valid_net example_net 2 2 \<and> 0 < (2::nat)
      \<and> has_shape2 2 72 [replicate 72 1, replicate 72 (2::real)]
      \<and> list_all (\<lambda>r. length r = 10) [[1, 2, 3, 4, 5, 6, 7, 8, 9, 10 :: real]]
      \<and> list_all (\<lambda>r. length r = 4) [[1, 2, 3, 4 :: real]]
      \<and> (length [[1, 2, 3, 4, 5, 6, 7, 8, 9, 10 :: real]] \<noteq> 2
         \<or> length [[1, 2, 3, 4 :: real]] \<noteq> 2)"
    by (simp add: valid_example_net has_shape2_def)
  with forward_batch_sizes [of example_net 2 2 2 "[replicate 72 1, replicate 72 2]"
      "[[1, 2, 3, 4, 5, 6, 7, 8, 9, 10]]" "[[1, 2, 3, 4]]"]
  show "\<exists>m. forward example_net [[1, 2, 3, 4, 5, 6, 7, 8, 9, 10]] [replicate 72 1, replicate 72 2]
           [[1, 2, 3, 4]] = Inl (RuntimeError m) \<and> m \<in> {''cat'', ''view'', ''broadcast''}"
    by blast
next
  have "valid_net example_net 2 2
        \<and> valid_input 1 [replicate 72 1] [[1, 2, 3, 4, 5, 6, 7, 8, 9, 10]] [[1, 2, 3, 4]]"
    by (simp add: valid_example_net valid_input_def has_shape2_def)
  with forward_batch_sizes [of example_net 2 2 1 "[replicate 72 1]"
      "[[1, 2, 3, 4, 5, 6, 7, 8, 9, 10]]" "[[1, 2, 3, 4]]"]
  show "\<exists>out. forward example_net [[1, 2, 3, 4, 5, 6, 7, 8, 9, 10]] [replicate 72 1]
           [[1, 2, 3, 4]] = Inr out"
    by blast
qed

text \<open>
  Claim C5 as stated fails: with one pose, one shape and two styles the high-frequency
  sub-model of both pivots runs and returns its field, and the call fails only afterwards, in the
  \<^verbatim>\<open>torch.cat\<close> of the shape-style predictor inside \<^verbatim>\<open>interp4\<close>, with a runtime
  error.
\<close>

theorem forward_no_batch_check_counterexample:
  "tailornet_hfs example_net = [example_hf, example_hf]
   \<and> \<not> isl (TailorNetHF_forward example_hf [replicate 72 1]
              (Some [[1, 2, 3, 4, 5, 6, 7, 8, 9, 10]]) (Some [[1, 2, 3, 4], [4, 3, 2, 1]]))
   \<and> forward example_net [[1, 2, 3, 4, 5, 6, 7, 8, 9, 10]] [replicate 72 1]
        [[1, 2, 3, 4], [4, 3, 2, 1]] = Inl (RuntimeError ''cat'')"
proof -
  let ?T = "[replicate 72 (1::real)]"
  let ?B = "[[1, 2, 3, 4, 5, 6, 7, 8, 9, 10 :: real]]"
  let ?G = "[[1, 2, 3, 4], [4, 3, 2, 1 :: real]]"
  have sh: "has_shape2 1 72 ?T" by (simp add: has_shape2_def)
  have ran: "\<not> isl (TailorNetHF_forward example_hf ?T (Some ?B) (Some ?G))"
    using sh by (rule example_hf_runs)
  from hf_stage_example [OF sh, of "Some ?B" "Some ?G"] obtain hf
    where seq: "sequence_res (map (\<lambda>h. bind_res
                  (TailorNetHF_forward h ?T (Some ?B) (Some ?G)) (view_infer1_3 1 3))
                  (tailornet_hfs example_net)) = Inr hf"
      and st: "stack hf = Inr hf"
    by auto
  have ss: "TailorNetSS2G_forward (tailornet_ss2g example_net) None (Some ?B) (Some ?G)
            = Inl (RuntimeError ''cat'')"
    by (rule TailorNetSS2G_forward_mismatch) simp_all
  have i4: "interp4 example_net ?T ?B ?G pivot sigma = Inl (RuntimeError ''cat'')" for pivot sigma
    by (simp add: interp4_def Let_def ss)
  have len: "length ?T = 1" by simp
  have "forward example_net ?B ?T ?G = Inl (RuntimeError ''cat'')"
    unfolding forward_def Let_def len seq bind_res_simps st i4 ..
  with ran show ?thesis by (simp add: example_net_def)
qed

end
